theory Spec2Isabelle
  imports Main
begin

section \<open>Observation spaces and observations\<close>

text \<open>
  The observation layer of \<^verbatim>\<open>rld/model.py\<close> works on gym spaces. The code tells
  \<^verbatim>\<open>Box\<close> and \<^verbatim>\<open>Dict\<close> apart with \<^verbatim>\<open>isinstance\<close> and treats every other
  space alike; \<^verbatim>\<open>Discrete\<close> and \<^verbatim>\<open>Tuple\<close> stand for the other classes of
  \<^verbatim>\<open>gym.spaces\<close>. Of a \<^verbatim>\<open>Box\<close> the code reads only \<^verbatim>\<open>shape\<close>; of a
  \<^verbatim>\<open>Dict\<close> only \<^verbatim>\<open>spaces\<close>, an \<^verbatim>\<open>OrderedDict\<close> from names to spaces,
  kept here as the list of its items in order.
\<close>

datatype space =
    Box "nat list"
  | Dict "(string \<times> space) list"
  | Discrete nat
  | Tuple "space list"

text \<open>
  Python passes any object where a space is expected. The one place where the code does
  so is \<^verbatim>\<open>_packed_size\<close>, which is called on the keys of a \<^verbatim>\<open>Dict\<close>.
\<close>

datatype pyarg = ASpace space | AStr string

datatype error =
    SpaceNotSupported pyarg
  | KeyError string
  | TypeError
  | IndexError
  | ValueError
  | RuntimeError
  | NotImplementedError

text \<open>
  An n-dimensional array (\<^verbatim>\<open>numpy.ndarray\<close>, \<^verbatim>\<open>torch.Tensor\<close>): its shape and
  its elements in row-major order. The element type is a parameter. Only arrays with as
  many elements as the shape says exist at run time (\<open>wf_array\<close>).
\<close>

datatype 'a ndarray = NDArray (shape: "nat list") (data: "'a list")

definition wf_array :: "'a ndarray \<Rightarrow> bool" where
  "wf_array a = (length (data a) = prod_list (shape a))"

definition ndim :: "'a ndarray \<Rightarrow> nat" where
  "ndim a = length (shape a)"

text \<open>
  A structured observation (\<^verbatim>\<open>ObsLike\<close>): an array, or an ordered dictionary from
  names to structured observations, kept as the list of its items in order.
\<close>

datatype 'l obslike = Leaf 'l | ODict "(string \<times> 'l obslike) list"

section \<open>Exceptions and comprehensions\<close>

text \<open>
  A list comprehension whose element expression may raise: the elements are evaluated in
  order and the first exception leaves the comprehension.
\<close>

fun collect :: "('e + 'a) list \<Rightarrow> 'e + 'a list" where
  "collect [] = Inr []"
| "collect (r # rs) =
     (case r of
        Inl e \<Rightarrow> Inl e
      | Inr v \<Rightarrow> (case collect rs of Inl e \<Rightarrow> Inl e | Inr vs \<Rightarrow> Inr (v # vs)))"

definition map_res :: "('a \<Rightarrow> 'b) \<Rightarrow> 'e + 'a \<Rightarrow> 'e + 'b" where
  "map_res f r = (case r of Inl e \<Rightarrow> Inl e | Inr v \<Rightarrow> Inr (f v))"

text \<open>
  \<^verbatim>\<open>OrderedDict(pairs)\<close>: the pairs are inserted from left to right; a key that is
  already there keeps its place and takes the new value.
\<close>

fun dict_set :: "string \<Rightarrow> 'v \<Rightarrow> (string \<times> 'v) list \<Rightarrow> (string \<times> 'v) list" where
  "dict_set k v [] = [(k, v)]"
| "dict_set k v ((k', v') # kvs) =
     (if k = k' then (k, v) # kvs else (k', v') # dict_set k v kvs)"

definition ordered_dict :: "(string \<times> 'v) list \<Rightarrow> (string \<times> 'v) list" where
  "ordered_dict pairs = foldl (\<lambda>d (k, v). dict_set k v d) [] pairs"

text \<open>
  \<^verbatim>\<open>obs[name]\<close>: a dictionary raises \<^verbatim>\<open>KeyError\<close> on a missing key, an array
  raises \<^verbatim>\<open>IndexError\<close> on a string index.
\<close>

definition getitem :: "'l obslike \<Rightarrow> string \<Rightarrow> error + 'l obslike" where
  "getitem obs name =
     (case obs of
        Leaf _ \<Rightarrow> Inl IndexError
      | ODict items \<Rightarrow>
          (case map_of items name of None \<Rightarrow> Inl (KeyError name) | Some v \<Rightarrow> Inr v))"

section \<open>The numpy operations the code calls\<close>

text \<open>
  \<^verbatim>\<open>np.asarray(obs, dtype=np.float32)\<close> converts every element; the conversion is
  the parameter \<open>cast\<close>. It raises \<^verbatim>\<open>TypeError\<close> on a dictionary.
\<close>

definition np_asarray :: "('a \<Rightarrow> 'b) \<Rightarrow> 'a ndarray obslike \<Rightarrow> error + 'b ndarray" where
  "np_asarray cast obs =
     (case obs of
        Leaf a \<Rightarrow> Inr (NDArray (shape a) (map cast (data a)))
      | ODict _ \<Rightarrow> Inl TypeError)"

definition np_flatten :: "'a ndarray \<Rightarrow> 'a ndarray" where
  "np_flatten a = NDArray [length (data a)] (data a)"

text \<open>\<^verbatim>\<open>a.reshape(shape)\<close> raises \<^verbatim>\<open>ValueError\<close> unless the sizes agree.\<close>

definition np_reshape :: "'a ndarray \<Rightarrow> nat list \<Rightarrow> error + 'a ndarray" where
  "np_reshape a shp =
     (if prod_list shp = length (data a) then Inr (NDArray shp (data a)) else Inl ValueError)"

text \<open>
  \<^verbatim>\<open>np.concatenate(arrays)\<close> joins along the first axis. It raises
  \<^verbatim>\<open>ValueError\<close> on an empty list, on a zero-dimensional array and on arrays whose
  other dimensions differ.
\<close>

definition np_concatenate :: "'a ndarray list \<Rightarrow> error + 'a ndarray" where
  "np_concatenate arrays =
     (case arrays of
        [] \<Rightarrow> Inl ValueError
      | a # rest \<Rightarrow>
          if list_ex (\<lambda>b. shape b = [] \<or> tl (shape b) \<noteq> tl (shape a)) arrays
          then Inl ValueError
          else Inr (NDArray (sum_list (map (\<lambda>b. hd (shape b)) arrays) # tl (shape a))
                            (concat (map data arrays))))"

fun cumsum_from :: "nat \<Rightarrow> nat list \<Rightarrow> nat list" where
  "cumsum_from acc [] = []"
| "cumsum_from acc (x # xs) = (acc + x) # cumsum_from (acc + x) xs"

definition np_cumsum :: "nat list \<Rightarrow> nat list" where
  "np_cumsum sizes = cumsum_from 0 sizes"

text \<open>
  \<^verbatim>\<open>a[st:end]\<close> along the first axis, for an array of at least one dimension: both
  bounds are clipped to the length, and an empty range gives an empty array.
\<close>

definition slice0 :: "'a ndarray \<Rightarrow> nat \<Rightarrow> nat \<Rightarrow> 'a ndarray" where
  "slice0 a st en =
     (let n = hd (shape a); row = prod_list (tl (shape a));
          s = min st n; e = min en n
      in NDArray ((e - s) # tl (shape a)) (take ((e - s) * row) (drop (s * row) (data a))))"

text \<open>
  \<^verbatim>\<open>np.split(a, indices)\<close> with a list of indices: the division points are
  \<^verbatim>\<open>[0] + indices + [a.shape[0]]\<close> and the pieces are the slices between
  neighbouring points. It does not compare the indices with the length.
  \<^verbatim>\<open>a.shape[0]\<close> raises \<^verbatim>\<open>IndexError\<close> on a zero-dimensional array.
\<close>

definition np_split :: "'a ndarray \<Rightarrow> nat list \<Rightarrow> error + 'a ndarray list" where
  "np_split a indices =
     (case shape a of
        [] \<Rightarrow> Inl IndexError
      | n # _ \<Rightarrow>
          (let div_points = 0 # indices @ [n]
           in Inr (map (\<lambda>(st, en). slice0 a st en) (zip div_points (tl div_points)))))"

section \<open>Packing and unpacking arrays\<close>

text \<open>
  \<^verbatim>\<open>_packed_size\<close>. For a \<^verbatim>\<open>Dict\<close> the comprehension runs over
  \<^verbatim>\<open>space.spaces\<close>, and iterating a dictionary yields its keys: the function is
  called on every name, which is neither a \<^verbatim>\<open>Box\<close> nor a \<^verbatim>\<open>Dict\<close>.
  \<^verbatim>\<open>np.prod\<close> of the empty shape is 1.
\<close>

function (sequential) packed_size :: "pyarg \<Rightarrow> error + nat" where
  "packed_size (ASpace (Box shp)) = Inr (prod_list shp)"
| "packed_size (ASpace (Dict spaces)) =
     (case collect (map (\<lambda>s. packed_size (AStr s)) (map fst spaces)) of
        Inl e \<Rightarrow> Inl e
      | Inr sizes \<Rightarrow> Inr (sum_list sizes))"
| "packed_size a = Inl (SpaceNotSupported a)"
  by pat_completeness auto
termination
  by (relation "measure (\<lambda>a. case a of AStr _ \<Rightarrow> 0 | ASpace _ \<Rightarrow> Suc 0)") auto

text \<open>\<^verbatim>\<open>pack_array\<close>; \<open>cast\<close> is the conversion to \<^verbatim>\<open>float32\<close>.\<close>

fun pack_array :: "('a \<Rightarrow> 'b) \<Rightarrow> 'a ndarray obslike \<Rightarrow> space \<Rightarrow> error + 'b ndarray" where
  "pack_array cast obs (Box shp) = map_res np_flatten (np_asarray cast obs)"
| "pack_array cast obs (Dict spaces) =
     (case collect (map (\<lambda>(name, s).
                      case getitem obs name of
                        Inl e \<Rightarrow> Inl e
                      | Inr child \<Rightarrow> pack_array cast child s) spaces) of
        Inl e \<Rightarrow> Inl e
      | Inr packed_values \<Rightarrow> np_concatenate packed_values)"
| "pack_array cast obs space = Inl (SpaceNotSupported (ASpace space))"

lemma space_child_size:
  "(name, s) \<in> set spaces \<Longrightarrow> size s < Suc (size_list (size_prod (\<lambda>x. 0) size) spaces)"
  by (induction spaces) auto

text \<open>\<^verbatim>\<open>unpack_array\<close>; \<^verbatim>\<open>np.asarray(obs)\<close> of an array is the array.\<close>

function (sequential) unpack_array :: "'a ndarray \<Rightarrow> space \<Rightarrow> error + 'a ndarray obslike" where
  "unpack_array obs (Box shp) = map_res Leaf (np_reshape obs shp)"
| "unpack_array obs (Dict spaces) =
     (case collect (map (\<lambda>s. packed_size (ASpace s)) (map snd spaces)) of
        Inl e \<Rightarrow> Inl e
      | Inr sizes \<Rightarrow>
          (case np_split obs (butlast (np_cumsum sizes)) of
             Inl e \<Rightarrow> Inl e
           | Inr split_packed \<Rightarrow>
               (case collect (map (\<lambda>(unpacked, (name, s)).
                                map_res (Pair name) (unpack_array unpacked s))
                              (zip split_packed spaces)) of
                  Inl e \<Rightarrow> Inl e
                | Inr split_unpacked \<Rightarrow> Inr (ODict (ordered_dict split_unpacked)))))"
| "unpack_array obs space = Inl (SpaceNotSupported (ASpace space))"
  by pat_completeness auto
termination
  by (relation "measure (\<lambda>(obs, space). size space)")
     (auto dest!: set_zip_rightD simp: space_child_size)

section \<open>Unpacking tensors\<close>

text \<open>
  \<^verbatim>\<open>t.reshape(shape)\<close> raises \<^verbatim>\<open>RuntimeError\<close> unless the sizes agree.
\<close>

definition torch_reshape :: "'a ndarray \<Rightarrow> nat list \<Rightarrow> error + 'a ndarray" where
  "torch_reshape t shp =
     (if prod_list shp = length (data t) then Inr (NDArray shp (data t)) else Inl RuntimeError)"

text \<open>
  \<^verbatim>\<open>torch.split(t, sizes)\<close> with a list of sizes cuts the first dimension into
  consecutive pieces of these sizes. It raises \<^verbatim>\<open>RuntimeError\<close> on a
  zero-dimensional tensor and when the sizes do not add up to the length of the first
  dimension.
\<close>

fun split_from :: "'a ndarray \<Rightarrow> nat \<Rightarrow> nat list \<Rightarrow> 'a ndarray list" where
  "split_from t start [] = []"
| "split_from t start (n # ns) = slice0 t start (start + n) # split_from t (start + n) ns"

definition torch_split :: "'a ndarray \<Rightarrow> nat list \<Rightarrow> error + 'a ndarray list" where
  "torch_split t sizes =
     (case shape t of
        [] \<Rightarrow> Inl RuntimeError
      | n # _ \<Rightarrow> if sum_list sizes = n then Inr (split_from t 0 sizes) else Inl RuntimeError)"

text \<open>
  \<^verbatim>\<open>t[b]\<close> for \<^verbatim>\<open>b\<close> in \<^verbatim>\<open>range(t.size(0))\<close>: row \<open>b\<close> of the first
  dimension. The code indexes only inside this range.
\<close>

definition select0 :: "'a ndarray \<Rightarrow> nat \<Rightarrow> 'a ndarray" where
  "select0 t b =
     (let row = prod_list (tl (shape t))
      in NDArray (tl (shape t)) (take row (drop (b * row) (data t))))"

text \<open>
  \<^verbatim>\<open>torch.stack(elems, dim=0)\<close> puts tensors of one shape under a new first
  dimension. It raises \<^verbatim>\<open>RuntimeError\<close> on an empty list and on tensors of
  different shapes.
\<close>

definition torch_stack :: "'a ndarray list \<Rightarrow> error + 'a ndarray" where
  "torch_stack elems =
     (case elems of
        [] \<Rightarrow> Inl RuntimeError
      | t # rest \<Rightarrow>
          if list_ex (\<lambda>u. shape u \<noteq> shape t) rest then Inl RuntimeError
          else Inr (NDArray (length elems # shape t) (concat (map data elems))))"

text \<open>
  \<^verbatim>\<open>tree.map_structure(func, *structures)\<close>. It raises \<^verbatim>\<open>ValueError\<close>
  when no structure is given and when a structure differs from the first one: a
  dictionary against an array, or dictionaries with different sets of keys (the order of
  the keys does not count). Then \<open>func\<close> is called on the leaves found under the same
  keys in all the structures, and the results are arranged as the first structure is.
  Every error of \<open>torch_stack\<close> is the same \<^verbatim>\<open>RuntimeError\<close>, so the order in
  which the leaves are visited does not show.
\<close>

fun same_structure :: "'l obslike \<Rightarrow> 'm obslike \<Rightarrow> bool" where
  "same_structure (Leaf _) (Leaf _) = True"
| "same_structure (ODict ps) (ODict qs) =
     (set (map fst ps) = set (map fst qs) \<and>
      list_all (\<lambda>(k, p). case map_of qs k of None \<Rightarrow> False | Some q \<Rightarrow> same_structure p q) ps)"
| "same_structure _ _ = False"

definition leaf_of :: "'l obslike \<Rightarrow> 'l list" where
  "leaf_of s = (case s of Leaf y \<Rightarrow> [y] | ODict _ \<Rightarrow> [])"

definition child_of :: "string \<Rightarrow> 'l obslike \<Rightarrow> 'l obslike list" where
  "child_of k s =
     (case s of
        Leaf _ \<Rightarrow> []
      | ODict qs \<Rightarrow> (case map_of qs k of None \<Rightarrow> [] | Some q \<Rightarrow> [q]))"

fun zip_leaves :: "'l obslike \<Rightarrow> 'l obslike list \<Rightarrow> 'l list obslike" where
  "zip_leaves (Leaf x) others = Leaf (x # concat (map leaf_of others))"
| "zip_leaves (ODict ps) others =
     ODict (map (\<lambda>(k, p). (k, zip_leaves p (concat (map (child_of k) others)))) ps)"

fun traverse :: "('a \<Rightarrow> error + 'b) \<Rightarrow> 'a obslike \<Rightarrow> error + 'b obslike" where
  "traverse f (Leaf x) = map_res Leaf (f x)"
| "traverse f (ODict ps) =
     map_res ODict (collect (map (\<lambda>(k, p). map_res (Pair k) (traverse f p)) ps))"

definition map_structure ::
  "('l list \<Rightarrow> error + 'm) \<Rightarrow> 'l obslike list \<Rightarrow> error + 'm obslike" where
  "map_structure func structures =
     (case structures of
        [] \<Rightarrow> Inl ValueError
      | s0 # others \<Rightarrow>
          if list_ex (\<lambda>s. \<not> same_structure s0 s) others then Inl ValueError
          else traverse func (zip_leaves s0 others))"

text \<open>
  \<^verbatim>\<open>_merge_unpacked_batch\<close>.
\<close>

definition merge_unpacked_batch :: "'a ndarray obslike list \<Rightarrow> error + 'a ndarray obslike" where
  "merge_unpacked_batch obs_list = map_structure torch_stack obs_list"

text \<open>
  \<^verbatim>\<open>unpack_tensor\<close>, \<^verbatim>\<open>_unpack_tensor_single\<close> and
  \<^verbatim>\<open>_unpack_tensor_batched\<close> call one another. \<^verbatim>\<open>obs.size(0)\<close> raises
  \<^verbatim>\<open>IndexError\<close> on a zero-dimensional tensor.
\<close>

function (sequential)
  unpack_tensor :: "'a ndarray \<Rightarrow> space \<Rightarrow> error + 'a ndarray obslike" and
  unpack_tensor_single :: "'a ndarray \<Rightarrow> space \<Rightarrow> error + 'a ndarray obslike" and
  unpack_tensor_batched :: "'a ndarray \<Rightarrow> space \<Rightarrow> error + 'a ndarray obslike"
where
  "unpack_tensor obs space =
     (let batch_size = (if ndim obs > 1 then Some (hd (shape obs)) else None)
      in case batch_size of
           None \<Rightarrow> unpack_tensor_single obs space
         | Some _ \<Rightarrow> unpack_tensor_batched obs space)"
| "unpack_tensor_single obs (Box shp) = map_res Leaf (torch_reshape obs shp)"
| "unpack_tensor_single obs (Dict spaces) =
     (case collect (map (\<lambda>s. packed_size (ASpace s)) (map snd spaces)) of
        Inl e \<Rightarrow> Inl e
      | Inr sizes \<Rightarrow>
          (case torch_split obs sizes of
             Inl e \<Rightarrow> Inl e
           | Inr split_packed \<Rightarrow>
               (case collect (map (\<lambda>(unpacked, (name, s)).
                                map_res (Pair name) (unpack_tensor unpacked s))
                              (zip split_packed spaces)) of
                  Inl e \<Rightarrow> Inl e
                | Inr split_unpacked \<Rightarrow> Inr (ODict (ordered_dict split_unpacked)))))"
| "unpack_tensor_single obs space = Inl (SpaceNotSupported (ASpace space))"
| "unpack_tensor_batched obs space =
     (case shape obs of
        [] \<Rightarrow> Inl IndexError
      | batch_size # _ \<Rightarrow>
          (case collect (map (\<lambda>b. unpack_tensor (select0 obs b) space) [0..<batch_size]) of
             Inl e \<Rightarrow> Inl e
           | Inr obs_list \<Rightarrow> merge_unpacked_batch obs_list))"
  by pat_completeness auto
termination
  apply (relation "inv_image (less_than <*lex*> less_than <*lex*> less_than)
     (\<lambda>x. case x of
        Inl (obs, sp) \<Rightarrow> (size sp, ndim obs, Suc 0)
      | Inr (Inl (obs, sp)) \<Rightarrow> (size sp, ndim obs, 0)
      | Inr (Inr (obs, sp)) \<Rightarrow> (size sp, ndim obs, 0))")
  apply (auto dest!: set_zip_rightD simp: space_child_size ndim_def select0_def Let_def)
  done

section \<open>The model and its wrapper\<close>

definition isinstance_Box :: "space \<Rightarrow> bool" where
  "isinstance_Box space = (case space of Box _ \<Rightarrow> True | _ \<Rightarrow> False)"

text \<open>
  \<^verbatim>\<open>Model.flatten_obs\<close> and \<^verbatim>\<open>Model.unflatten_obs\<close>. \<open>self_obs_space\<close> is what
  \<^verbatim>\<open>self.obs_space()\<close> returns or raises (\<^verbatim>\<open>Model.obs_space\<close> raises
  \<^verbatim>\<open>NotImplementedError\<close>, a subclass returns its space). gym's \<^verbatim>\<open>flatten\<close> and
  \<^verbatim>\<open>unflatten\<close> are parameters.
\<close>

definition Model_obs_space :: "error + space" where
  "Model_obs_space = Inl NotImplementedError"

definition flatten_obs ::
  "(space \<Rightarrow> 'o \<Rightarrow> error + 'o) \<Rightarrow> error + space \<Rightarrow> 'o \<Rightarrow> error + 'o" where
  "flatten_obs gym_flatten self_obs_space obs =
     (case self_obs_space of
        Inl e \<Rightarrow> Inl e
      | Inr space \<Rightarrow> if isinstance_Box space then Inr obs else gym_flatten space obs)"

definition unflatten_obs ::
  "(space \<Rightarrow> 'o \<Rightarrow> error + 'o) \<Rightarrow> error + space \<Rightarrow> 'o \<Rightarrow> error + 'o" where
  "unflatten_obs gym_unflatten self_obs_space obs =
     (case self_obs_space of
        Inl e \<Rightarrow> Inl e
      | Inr space \<Rightarrow> if isinstance_Box space then Inr obs else gym_unflatten space obs)"

text \<open>
  The input of the wrapped model, \<^verbatim>\<open>{"obs": ..., "obs_flat": ...}\<close>, and the wrapped
  model (\<^verbatim>\<open>ModelV2\<close>) as far as the wrapper uses it: its \<^verbatim>\<open>obs_space\<close>, the
  attribute \<^verbatim>\<open>original_space\<close> of that space when it has one, its
  \<^verbatim>\<open>action_space\<close>, and its call, which takes the input, a state and sequence lengths
  and returns a pair of the output and a state.
\<close>

record 'a input_dict =
  obs :: "'a ndarray obslike"
  obs_flat :: "'a ndarray"

record ('a, 'h, 'out) ray_model =
  model_obs_space :: space
  original_space :: "space option"
  model_action_space :: space
  model_call :: "'a input_dict \<Rightarrow> 'h option \<Rightarrow> nat list option \<Rightarrow> 'out \<times> 'h"

text \<open>\<^verbatim>\<open>RayModelWrapper.obs_space\<close> and \<^verbatim>\<open>RayModelWrapper.action_space\<close>.\<close>

definition obs_space :: "('a, 'h, 'out) ray_model \<Rightarrow> space" where
  "obs_space m =
     (case original_space m of
        Some space \<Rightarrow> space
      | None \<Rightarrow> model_obs_space m)"

definition action_space :: "('a, 'h, 'out) ray_model \<Rightarrow> space" where
  "action_space m = model_action_space m"

text \<open>
  \<^verbatim>\<open>RayModelWrapper.forward\<close>: the input is built first, and an exception of
  \<^verbatim>\<open>unpack_tensor\<close> leaves \<^verbatim>\<open>forward\<close> before the model is called.
\<close>

definition forward_input ::
  "('a, 'h, 'out) ray_model \<Rightarrow> 'a ndarray \<Rightarrow> error + 'a input_dict" where
  "forward_input m x =
     (if isinstance_Box (obs_space m)
      then map_res (\<lambda>unpacked. \<lparr>obs = unpacked, obs_flat = x\<rparr>) (unpack_tensor x (obs_space m))
      else Inr \<lparr>obs = Leaf x, obs_flat = x\<rparr>)"

definition forward :: "('a, 'h, 'out) ray_model \<Rightarrow> 'a ndarray \<Rightarrow> error + 'out" where
  "forward m x =
     (case forward_input m x of
        Inl e \<Rightarrow> Inl e
      | Inr input_dict \<Rightarrow>
          (let state = None; seq_lens = None
           in Inr (fst (model_call m input_dict state seq_lens))))"

section \<open>The size of a space\<close>

lemma packed_size_nonempty_dict:
  "packed_size (ASpace (Dict ((name, s) # rest))) = Inl (SpaceNotSupported (AStr name))"
  by simp

lemma packed_size_empty_dict: "packed_size (ASpace (Dict [])) = Inr 0"
  by simp

text \<open>
  C2. The claim: the size of a space is the length of what \<^verbatim>\<open>pack_array\<close> returns for
  a matching observation, and the size of a \<^verbatim>\<open>Dict\<close> is the sum of the sizes of its
  children. The code does not do this: on the space of the specification's first example,
  \<^verbatim>\<open>_packed_size\<close> calls itself on the key \<^verbatim>\<open>"pos"\<close> and raises
  \<^verbatim>\<open>SpaceNotSupported\<close>, while \<^verbatim>\<open>pack_array\<close> returns three elements.
\<close>

theorem packed_size_dict_raises:
  "packed_size (ASpace (Dict [(''pos'', Box [2]), (''vel'', Box [1])])) =
     Inl (SpaceNotSupported (AStr ''pos'')) \<and>
   pack_array id (ODict [(''pos'', Leaf (NDArray [2] [1, 2 :: int])), (''vel'', Leaf (NDArray [1] [3]))])
     (Dict [(''pos'', Box [2]), (''vel'', Box [1])]) = Inr (NDArray [3] [1, 2, 3])"
  by (simp add: getitem_def np_asarray_def np_flatten_def map_res_def np_concatenate_def)

section \<open>Packing and unpacking again\<close>

text \<open>
  C3. The claim: unpacking what \<^verbatim>\<open>pack_array\<close> returns gives the observation back,
  for nested \<^verbatim>\<open>Dict\<close> spaces too. The code does not do this: on the nested example
  of the specification \<^verbatim>\<open>pack_array\<close> returns \<^verbatim>\<open>[5, 6, 7]\<close>, and
  \<^verbatim>\<open>unpack_array\<close> of that block raises \<^verbatim>\<open>SpaceNotSupported\<close>, because it asks
  \<^verbatim>\<open>_packed_size\<close> for the size of the inner \<^verbatim>\<open>Dict\<close>.
\<close>

theorem unpack_array_nested_raises:
  "pack_array id (ODict [(''a'', ODict [(''x'', Leaf (NDArray [1] [5 :: int]))]),
                         (''b'', Leaf (NDArray [2] [6, 7]))])
     (Dict [(''a'', Dict [(''x'', Box [1])]), (''b'', Box [2])]) = Inr (NDArray [3] [5, 6, 7]) \<and>
   unpack_array (NDArray [3] [5, 6, 7 :: int])
     (Dict [(''a'', Dict [(''x'', Box [1])]), (''b'', Box [2])]) =
     Inl (SpaceNotSupported (AStr ''x''))"
  by (simp add: getitem_def np_asarray_def np_flatten_def map_res_def np_concatenate_def)

text \<open>
  C4. The claim: for every \<^verbatim>\<open>Dict\<close>, packing joins the packed children in the order
  of the space, and unpacking cuts the block into the children's pieces in the same order
  and returns a dictionary with the names in that order. Packing does so; unpacking does
  not return at all when a child is a \<^verbatim>\<open>Dict\<close> with a name in it: here the block
  \<^verbatim>\<open>[1, 2, 3, 4]\<close> packed from \<^verbatim>\<open>a\<close> and \<^verbatim>\<open>b\<close> is not cut, and
  \<^verbatim>\<open>unpack_array\<close> raises \<^verbatim>\<open>SpaceNotSupported\<close> on the first name of \<^verbatim>\<open>b\<close>.
\<close>

theorem unpack_array_dict_child_raises:
  "pack_array id (ODict [(''a'', Leaf (NDArray [2] [1, 2 :: int])),
                         (''b'', ODict [(''x'', Leaf (NDArray [1] [3])), (''y'', Leaf (NDArray [1] [4]))])])
     (Dict [(''a'', Box [2]), (''b'', Dict [(''x'', Box [1]), (''y'', Box [1])])]) =
     Inr (NDArray [4] [1, 2, 3, 4]) \<and>
   unpack_array (NDArray [4] [1, 2, 3, 4 :: int])
     (Dict [(''a'', Box [2]), (''b'', Dict [(''x'', Box [1]), (''y'', Box [1])])]) =
     Inl (SpaceNotSupported (AStr ''x''))"
  by (simp add: getitem_def np_asarray_def np_flatten_def map_res_def np_concatenate_def)

section \<open>Where packing and unpacking agree\<close>

text \<open>
  Away from \<^verbatim>\<open>Dict\<close>s inside \<^verbatim>\<open>Dict\<close>s the functions do what is expected of them.
  For a \<^verbatim>\<open>Box\<close> and a well-formed array of its shape, and for a \<^verbatim>\<open>Dict\<close> of
  \<^verbatim>\<open>Box\<close>es (at least one, \<open>kas\<close> gives the names with an array of the right shape for
  each) and an observation that has these arrays under these names: \<^verbatim>\<open>pack_array\<close>
  returns the converted elements of the children in the order of the space, and
  \<^verbatim>\<open>unpack_array\<close> of that block returns the converted arrays under the names of the
  space, in its order.
\<close>

lemma collect_map_Inr: "collect (map (\<lambda>x. Inr (f x)) xs) = Inr (map f xs)"
  by (induction xs) auto

lemma dict_set_fresh: "k \<notin> set (map fst d) \<Longrightarrow> dict_set k v d = d @ [(k, v)]"
  by (induction d) auto

lemma foldl_dict_set_distinct:
  "distinct (map fst (acc @ pairs)) \<Longrightarrow>
   foldl (\<lambda>d (k, v). dict_set k v d) acc pairs = acc @ pairs"
proof (induction pairs arbitrary: acc)
  case Nil
  then show ?case by simp
next
  case (Cons kv pairs)
  obtain k v where kv: "kv = (k, v)" by (cases kv)
  from Cons.prems kv have fresh: "k \<notin> set (map fst acc)"
    by auto
  from Cons.prems kv have "distinct (map fst ((acc @ [(k, v)]) @ pairs))"
    by simp
  from Cons.IH [OF this] fresh kv show ?case
    by (simp add: dict_set_fresh)
qed

lemma ordered_dict_distinct: "distinct (map fst pairs) \<Longrightarrow> ordered_dict pairs = pairs"
  using foldl_dict_set_distinct [of "[]" pairs] by (simp add: ordered_dict_def)

lemma cumsum_from_last:
  "xs \<noteq> [] \<Longrightarrow> butlast (cumsum_from acc xs) @ [acc + sum_list xs] = cumsum_from acc xs"
proof (induction xs arbitrary: acc)
  case Nil
  then show ?case by simp
next
  case (Cons x xs)
  show ?case
  proof (cases "xs = []")
    case True
    then show ?thesis by simp
  next
    case False
    then have "cumsum_from (acc + x) xs \<noteq> []"
      by (cases xs) auto
    with Cons.IH [OF False, of "acc + x"] show ?thesis
      by (simp add: add.assoc)
  qed
qed

lemma slices_of_concat:
  "map (\<lambda>(st, en). slice0 (NDArray [length pre + length (concat xss)] (pre @ concat xss)) st en)
       (zip (length pre # cumsum_from (length pre) (map length xss))
            (cumsum_from (length pre) (map length xss))) =
   map (\<lambda>xs. NDArray [length xs] xs) xss"
proof (induction xss arbitrary: pre)
  case Nil
  show ?case by simp
next
  case (Cons xs xss)
  have "slice0 (NDArray [length pre + length (concat (xs # xss))] (pre @ concat (xs # xss)))
          (length pre) (length pre + length xs) = NDArray [length xs] xs"
    by (simp add: slice0_def Let_def)
  moreover from Cons.IH [of "pre @ xs"]
  have "map (\<lambda>(st, en). slice0 (NDArray [length pre + length (concat (xs # xss))]
                                    (pre @ concat (xs # xss))) st en)
          (zip ((length pre + length xs) # cumsum_from (length pre + length xs) (map length xss))
               (cumsum_from (length pre + length xs) (map length xss))) =
        map (\<lambda>xs. NDArray [length xs] xs) xss"
    by (simp add: add.assoc)
  ultimately show ?case
    by simp
qed

lemma np_split_concat:
  assumes "xss \<noteq> []"
  shows "np_split (NDArray [length (concat xss)] (concat xss)) (butlast (np_cumsum (map length xss))) =
         Inr (map (\<lambda>xs. NDArray [length xs] xs) xss)"
proof -
  have "sum_list (map length xss) = length (concat xss)"
    by (simp add: length_concat)
  with cumsum_from_last [of "map length xss" 0] assms
  have "butlast (cumsum_from 0 (map length xss)) @ [length (concat xss)] =
        cumsum_from 0 (map length xss)"
    by simp
  with slices_of_concat [of "[]" xss] show ?thesis
    by (simp add: np_split_def np_cumsum_def)
qed

lemma np_concatenate_flat:
  assumes "xss \<noteq> []"
  shows "np_concatenate (map (\<lambda>xs. NDArray [length xs] xs) xss) =
         Inr (NDArray [length (concat xss)] (concat xss))"
proof -
  from assms obtain ys yss where xss: "xss = ys # yss"
    by (cases xss) auto
  have "sum_list (map (\<lambda>b. hd (shape b)) (map (\<lambda>xs. NDArray [length xs] xs) xss)) =
        length (concat xss)"
    by (simp add: length_concat comp_def)
  moreover have "concat (map data (map (\<lambda>xs. NDArray [length xs] xs) xss)) = concat xss"
    by (simp add: comp_def)
  moreover have "\<not> list_ex (\<lambda>b. shape b = [] \<or> tl (shape b) \<noteq> [])
                    (map (\<lambda>xs. NDArray [length xs] xs) xss)"
    by (simp add: list_ex_iff)
  ultimately show ?thesis
    unfolding np_concatenate_def xss by (simp add: comp_def)
qed

lemma pack_array_flat_dict:
  assumes "kas \<noteq> []"
    and "\<forall>(k, a) \<in> set kas. map_of items k = Some (Leaf a)"
  shows "pack_array cast (ODict items) (Dict (map (\<lambda>(k, a). (k, Box (shape a))) kas)) =
         Inr (NDArray [length (concat (map (\<lambda>(k, a). map cast (data a)) kas))]
                      (concat (map (\<lambda>(k, a). map cast (data a)) kas)))"
proof -
  let ?xss = "map (\<lambda>(k :: string, a :: 'a ndarray). map cast (data a)) kas"
  have "map (\<lambda>(name, s). case getitem (ODict items) name of
                            Inl e \<Rightarrow> Inl e | Inr child \<Rightarrow> pack_array cast child s)
            (map (\<lambda>(k, a). (k, Box (shape a))) kas) =
        map (\<lambda>xs. Inr (NDArray [length xs] xs)) ?xss"
    using assms(2)
    by (auto simp: getitem_def np_asarray_def np_flatten_def map_res_def)
  then have "collect (map (\<lambda>(name, s). case getitem (ODict items) name of
                            Inl e \<Rightarrow> Inl e | Inr child \<Rightarrow> pack_array cast child s)
            (map (\<lambda>(k, a). (k, Box (shape a))) kas)) =
        Inr (map (\<lambda>xs. NDArray [length xs] xs) ?xss)"
    by (simp only: collect_map_Inr)
  moreover have "np_concatenate (map (\<lambda>xs. NDArray [length xs] xs) ?xss) =
      Inr (NDArray [length (concat ?xss)] (concat ?xss))"
    using assms(1) by (intro np_concatenate_flat) simp
  ultimately show ?thesis
    by (simp only: pack_array.simps sum.case)
qed

lemma unpack_array_flat_dict:
  assumes "kas \<noteq> []" and "distinct (map fst kas)"
    and "\<forall>(k, a) \<in> set kas. wf_array a"
  shows "unpack_array (NDArray [length (concat (map (\<lambda>(k, a). map cast (data a)) kas))]
                      (concat (map (\<lambda>(k, a). map cast (data a)) kas)))
           (Dict (map (\<lambda>(k, a). (k, Box (shape a))) kas)) =
         Inr (ODict (map (\<lambda>(k, a). (k, Leaf (NDArray (shape a) (map cast (data a))))) kas))"
proof -
  let ?xss = "map (\<lambda>(k :: string, a :: 'a ndarray). map cast (data a)) kas"
  let ?spaces = "map (\<lambda>(k :: string, a :: 'a ndarray). (k, Box (shape a))) kas"
  let ?out = "map (\<lambda>(k :: string, a :: 'a ndarray). (k, Leaf (NDArray (shape a) (map cast (data a))))) kas"
  have "map (\<lambda>s. packed_size (ASpace s)) (map snd ?spaces) = map (\<lambda>x. Inr (length x)) ?xss"
    using assms(3) by (auto simp: wf_array_def)
  then have sizes: "collect (map (\<lambda>s. packed_size (ASpace s)) (map snd ?spaces)) =
      Inr (map length ?xss)"
    by (simp only: collect_map_Inr)
  have split: "np_split (NDArray [length (concat ?xss)] (concat ?xss))
      (butlast (np_cumsum (map length ?xss))) = Inr (map (\<lambda>xs. NDArray [length xs] xs) ?xss)"
    using assms(1) by (intro np_split_concat) simp
  have "map (\<lambda>(unpacked, (name, s)). map_res (Pair name) (unpack_array unpacked s))
          (zip (map (\<lambda>xs. NDArray [length xs] xs) ?xss) ?spaces) =
        map (\<lambda>x. Inr ((\<lambda>(k, a). (k, Leaf (NDArray (shape a) (map cast (data a))))) x)) kas"
    using assms(3)
    by (auto simp: zip_map_map zip_same_conv_map map_res_def np_reshape_def wf_array_def)
  then have unpacked: "collect (map (\<lambda>(unpacked, (name, s)). map_res (Pair name) (unpack_array unpacked s))
          (zip (map (\<lambda>xs. NDArray [length xs] xs) ?xss) ?spaces)) = Inr ?out"
    by (simp only: collect_map_Inr)
  have "map fst ?out = map fst kas"
    by (induction kas) auto
  with assms(2) have "distinct (map fst ?out)"
    by (simp only:)
  then have "ordered_dict ?out = ?out"
    by (rule ordered_dict_distinct)
  with sizes split unpacked show ?thesis
    by (simp only: unpack_array.simps sum.case)
qed

lemma roundtrip_box:
  assumes "wf_array a"
  shows "pack_array cast (Leaf a) (Box (shape a)) =
           Inr (NDArray [length (data a)] (map cast (data a))) \<and>
         unpack_array (NDArray [length (data a)] (map cast (data a))) (Box (shape a)) =
           Inr (Leaf (NDArray (shape a) (map cast (data a)))) \<and>
         packed_size (ASpace (Box (shape a))) = Inr (length (data a))"
  using assms
  by (simp add: np_asarray_def np_flatten_def np_reshape_def map_res_def wf_array_def)

lemma roundtrip_flat_dict:
  assumes "kas \<noteq> []" and "distinct (map fst kas)"
    and "\<forall>(k, a) \<in> set kas. wf_array a \<and> map_of items k = Some (Leaf a)"
  shows "\<exists>p. pack_array cast (ODict items) (Dict (map (\<lambda>(k, a). (k, Box (shape a))) kas)) = Inr p \<and>
             data p = concat (map (\<lambda>(k, a). map cast (data a)) kas) \<and>
             unpack_array p (Dict (map (\<lambda>(k, a). (k, Box (shape a))) kas)) =
               Inr (ODict (map (\<lambda>(k, a). (k, Leaf (NDArray (shape a) (map cast (data a))))) kas))"
proof -
  have "\<forall>(k, a) \<in> set kas. map_of items k = Some (Leaf a)" and "\<forall>(k, a) \<in> set kas. wf_array a"
    using assms(3) by auto
  then show ?thesis
    using pack_array_flat_dict [OF assms(1), of items cast]
      unpack_array_flat_dict [OF assms(1,2), of cast]
    by simp
qed

section \<open>Spaces that are not supported\<close>

text \<open>
  A space is not supported when it is neither a \<^verbatim>\<open>Box\<close> nor a \<^verbatim>\<open>Dict\<close>; a space
  contains such a space when it is one, or is a \<^verbatim>\<open>Dict\<close> with a child that contains
  one.
\<close>

definition unsupported :: "space \<Rightarrow> bool" where
  "unsupported space = (case space of Box _ \<Rightarrow> False | Dict _ \<Rightarrow> False | _ \<Rightarrow> True)"

fun contains_unsupported :: "space \<Rightarrow> bool" where
  "contains_unsupported (Box shp) = False"
| "contains_unsupported (Dict spaces) = list_ex (\<lambda>(name, s). contains_unsupported s) spaces"
| "contains_unsupported space = True"

text \<open>The spaces inside a space: itself, and the spaces inside the children of a \<^verbatim>\<open>Dict\<close>.\<close>

fun sub_spaces :: "space \<Rightarrow> space list" where
  "sub_spaces (Dict spaces) = Dict spaces # concat (map (\<lambda>(name, s). sub_spaces s) spaces)"
| "sub_spaces space = [space]"

lemma sub_spaces_self: "sp \<in> set (sub_spaces sp)"
  by (cases sp) simp_all

lemma sub_spaces_child:
  "(name, s) \<in> set spaces \<Longrightarrow> u \<in> set (sub_spaces s) \<Longrightarrow> u \<in> set (sub_spaces (Dict spaces))"
  by force

lemma collect_Inl_mem: "collect rs = Inl e \<Longrightarrow> Inl e \<in> set rs"
  by (induction rs) (auto split: sum.splits)

lemma collect_ex_Inl: "Inl e \<in> set rs \<Longrightarrow> \<exists>e'. collect rs = Inl e'"
  by (induction rs) (auto split: sum.splits)

lemma collect_first_error:
  assumes "\<forall>y \<in> set pre. \<exists>v. f y = Inr v" and "f x = Inl e"
  shows "collect (map f (pre @ x # post)) = Inl e"
  using assms
proof (induction pre)
  case Nil
  then show ?case by simp
next
  case (Cons y pre)
  then obtain v where "f y = Inr v" by auto
  with Cons show ?case by simp
qed

lemma pack_array_contains:
  "contains_unsupported s \<Longrightarrow> \<exists>e. pack_array cast ob s = Inl e"
proof (induction cast ob s rule: pack_array.induct)
  case (2 cast ob spaces)
  let ?f = "\<lambda>(name, s). case getitem ob name of
                            Inl e \<Rightarrow> Inl e | Inr child \<Rightarrow> pack_array cast child s"
  from "2.prems" obtain name c where c: "(name, c) \<in> set spaces" "contains_unsupported c"
    by (auto simp: list_ex_iff)
  have "\<exists>e. ?f (name, c) = Inl e"
  proof (cases "getitem ob name")
    case (Inl e)
    then show ?thesis by simp
  next
    case (Inr child)
    with "2.IH" [OF c(1) refl Inr c(2)] show ?thesis by simp
  qed
  then obtain e where "?f (name, c) = Inl e" ..
  moreover have "?f (name, c) \<in> set (map ?f spaces)"
    unfolding set_map [of ?f] using c(1) by (rule imageI)
  ultimately have "Inl e \<in> set (map ?f spaces)"
    by (simp only:)
  then have "\<exists>e'. collect (map ?f spaces) = Inl e'"
    by (rule collect_ex_Inl)
  then obtain e' where "collect (map ?f spaces) = Inl e'" ..
  then show ?case by simp
qed simp_all

lemma collect_all_Inr:
  assumes "\<forall>x \<in> set xs. \<exists>v. g x = Inr v"
  shows "\<exists>vs. collect (map g xs) = Inr vs \<and> list_all2 (\<lambda>x v. g x = Inr v) xs vs"
  using assms
proof (induction xs)
  case Nil
  then show ?case by simp
next
  case (Cons x xs)
  then obtain v vs where "g x = Inr v" "collect (map g xs) = Inr vs"
    "list_all2 (\<lambda>x v. g x = Inr v) xs vs"
    by auto
  then show ?case by simp
qed

lemma collect_Inr_rel:
  "collect rs = Inr vs \<Longrightarrow> list_all2 (\<lambda>r v. r = Inr v) rs vs"
  by (induction rs arbitrary: vs) (auto split: sum.splits)

lemma pack_array_errors:
  "pack_array cast ob sp = Inl e \<Longrightarrow>
   (\<exists>u. e = SpaceNotSupported (ASpace u) \<and> unsupported u \<and> u \<in> set (sub_spaces sp)) \<or>
   (\<exists>n. e = KeyError n) \<or> e = IndexError \<or> e = TypeError \<or> e = ValueError"
proof (induction cast ob sp arbitrary: e rule: pack_array.induct)
  case (1 cast ob shp)
  then show ?case
    by (auto simp: map_res_def np_asarray_def split: sum.splits obslike.splits)
next
  case (2 cast ob spaces)
  let ?f = "\<lambda>(name, s). case getitem ob name of
                            Inl e \<Rightarrow> Inl e | Inr child \<Rightarrow> pack_array cast child s"
  show ?case
  proof (cases "collect (map ?f spaces)")
    case (Inl e')
    with "2.prems" have e: "e' = e" by simp
    from Inl have "Inl e' \<in> set (map ?f spaces)"
      by (rule collect_Inl_mem)
    then obtain name s where ns: "(name, s) \<in> set spaces" "?f (name, s) = Inl e"
      using e by auto
    show ?thesis
    proof (cases "getitem ob name")
      case (Inl e'')
      with ns(2) have "getitem ob name = Inl e" by simp
      then show ?thesis
        by (auto simp: getitem_def split: obslike.splits option.splits)
    next
      case (Inr child)
      with ns(2) have "pack_array cast child s = Inl e" by simp
      from "2.IH" [OF ns(1) refl Inr this] show ?thesis
        using sub_spaces_child [OF ns(1)] by blast
    qed
  next
    case (Inr ps)
    with "2.prems" have "np_concatenate ps = Inl e" by simp
    then have "e = ValueError"
      by (auto simp: np_concatenate_def split: list.splits if_splits)
    then show ?thesis by simp
  qed
qed (simp_all add: unsupported_def)

lemma pack_array_first_failure:
  assumes "\<forall>(n, s') \<in> set pre. \<exists>c r. getitem ob n = Inr c \<and> pack_array cast c s' = Inr r"
    and "getitem ob name = Inl e \<or>
         (\<exists>child. getitem ob name = Inr child \<and> pack_array cast child s = Inl e)"
  shows "pack_array cast ob (Dict (pre @ (name, s) # post)) = Inl e"
proof -
  let ?f = "\<lambda>(name, s). case getitem ob name of
                            Inl e \<Rightarrow> Inl e | Inr child \<Rightarrow> pack_array cast child s"
  have "\<forall>y \<in> set pre. \<exists>v. ?f y = Inr v"
    using assms(1) by fastforce
  moreover have "?f (name, s) = Inl e"
    using assms(2) by auto
  ultimately have "collect (map ?f (pre @ (name, s) # post)) = Inl e"
    by (rule collect_first_error)
  then show ?thesis by simp
qed

lemma unsupported_cases:
  assumes "unsupported sp"
  shows "pack_array cast ob sp = Inl (SpaceNotSupported (ASpace sp))"
    and "unpack_array a sp = Inl (SpaceNotSupported (ASpace sp))"
    and "unpack_tensor_single a sp = Inl (SpaceNotSupported (ASpace sp))"
    and "packed_size (ASpace sp) = Inl (SpaceNotSupported (ASpace sp))"
  using assms by (cases sp; simp add: unsupported_def)+

lemma sizes_first_unsupported:
  assumes "\<forall>(n, s') \<in> set pre. \<exists>shp. s' = Box shp" and "unsupported u"
  shows "collect (map (\<lambda>s. packed_size (ASpace s)) (map snd (pre @ (name, u) # post))) =
         Inl (SpaceNotSupported (ASpace u))"
proof -
  have "\<forall>y \<in> set pre. \<exists>v. (\<lambda>p. packed_size (ASpace (snd p))) y = Inr v"
    using assms(1) by fastforce
  moreover have "(\<lambda>p. packed_size (ASpace (snd p))) (name, u) = Inl (SpaceNotSupported (ASpace u))"
    using unsupported_cases(4) [OF assms(2)] by simp
  ultimately have "collect (map (\<lambda>p. packed_size (ASpace (snd p))) (pre @ (name, u) # post)) =
      Inl (SpaceNotSupported (ASpace u))"
    by (rule collect_first_error)
  then show ?thesis
    by (simp add: comp_def)
qed

lemma unpack_first_unsupported:
  assumes "\<forall>(n, s') \<in> set pre. \<exists>shp. s' = Box shp" and "unsupported u"
  shows "unpack_array a (Dict (pre @ (name, u) # post)) = Inl (SpaceNotSupported (ASpace u))"
    and "unpack_tensor_single a (Dict (pre @ (name, u) # post)) = Inl (SpaceNotSupported (ASpace u))"
  using sizes_first_unsupported [OF assms, of name post] by simp_all

lemma unpack_tensor_const_error:
  assumes "\<And>t :: 'a ndarray. unpack_tensor_single t sp = Inl e"
  shows "unpack_tensor (t :: 'a ndarray) sp =
         (if 0 \<in> set (butlast (shape t)) then Inl ValueError else Inl e)"
proof -
  have "\<forall>t :: 'a ndarray. shape t = shp \<longrightarrow>
          unpack_tensor t sp = (if 0 \<in> set (butlast shp) then Inl ValueError else Inl e)" for shp
  proof (induction shp)
    case Nil
    show ?case
      using assms by (simp add: ndim_def)
  next
    case (Cons n rest)
    show ?case
    proof (intro allI impI)
      fix t :: "'a ndarray" assume sh: "shape t = n # rest"
      show "unpack_tensor t sp = (if 0 \<in> set (butlast (n # rest)) then Inl ValueError else Inl e)"
      proof (cases "rest = []")
        case True
        with sh assms show ?thesis
          by (simp add: ndim_def)
      next
        case False
        then have rank: "1 < ndim t"
          using sh by (cases rest) (simp_all add: ndim_def)
        then have b: "unpack_tensor t sp = unpack_tensor_batched t sp"
          by simp
        show ?thesis
        proof (cases "n = 0")
          case True
          with sh have "unpack_tensor_batched t sp = Inl ValueError"
            by (simp add: merge_unpacked_batch_def map_structure_def)
          with b True False show ?thesis
            by (cases rest) (simp_all del: unpack_tensor.simps)
        next
          case n: False
          then have upt: "[0..<n] = 0 # [Suc 0..<n]"
            by (simp add: upt_conv_Cons)
          have "shape (select0 t 0) = rest"
            using sh by (simp add: select0_def Let_def)
          with Cons.IH have first: "unpack_tensor (select0 t 0) sp =
              (if 0 \<in> set (butlast rest) then Inl ValueError else Inl e)"
            by blast
          have "unpack_tensor_batched t sp =
              (if 0 \<in> set (butlast rest) then Inl ValueError else Inl e)"
            using sh first by (simp add: upt del: unpack_tensor.simps)
          with b n False show ?thesis
            by (cases rest) (simp_all del: unpack_tensor.simps)
        qed
      qed
    qed
  qed
  then show ?thesis by blast
qed

text \<open>
  C6, as the code has it. A space that is itself not supported makes \<^verbatim>\<open>pack_array\<close>,
  \<^verbatim>\<open>unpack_array\<close>, \<^verbatim>\<open>_unpack_tensor_single\<close> and \<^verbatim>\<open>_packed_size\<close> raise
  \<^verbatim>\<open>SpaceNotSupported\<close> with that space, on every input; \<^verbatim>\<open>unpack_tensor\<close> does
  so too, unless one of the batch dimensions of the tensor is 0: then there is nothing to
  merge and \<^verbatim>\<open>tree.map_structure\<close> raises \<^verbatim>\<open>ValueError\<close>. A space that contains
  one makes \<^verbatim>\<open>pack_array\<close> raise on every observation, so that no output is produced.
  Whenever \<^verbatim>\<open>pack_array\<close> raises \<^verbatim>\<open>SpaceNotSupported\<close>, the exception names a
  space inside the given one that is not supported; its other exceptions are
  \<^verbatim>\<open>KeyError\<close>, \<^verbatim>\<open>IndexError\<close>, \<^verbatim>\<open>TypeError\<close> and \<^verbatim>\<open>ValueError\<close>. On a
  \<^verbatim>\<open>Dict\<close> it raises the exception of the first child that fails, unchanged, be it
  the look-up \<^verbatim>\<open>obs[name]\<close> or the packing of the child. Unpacking with a \<^verbatim>\<open>Dict\<close>
  whose children in front of a child that is not supported are \<^verbatim>\<open>Box\<close>es raises
  \<^verbatim>\<open>SpaceNotSupported\<close> with that child, on every input (a batch dimension 0 apart).
  Nothing is said here of \<^verbatim>\<open>_packed_size\<close> on a \<^verbatim>\<open>Dict\<close> and of unpacking with a
  \<^verbatim>\<open>Dict\<close> inside a \<^verbatim>\<open>Dict\<close>, where the keys are iterated (C2).
\<close>

theorem unsupported_space_raises:
  "(unsupported sp \<longrightarrow>
      pack_array cast ob sp = Inl (SpaceNotSupported (ASpace sp)) \<and>
      unpack_array a sp = Inl (SpaceNotSupported (ASpace sp)) \<and>
      unpack_tensor_single a sp = Inl (SpaceNotSupported (ASpace sp)) \<and>
      unpack_tensor a sp =
        (if 0 \<in> set (butlast (shape a)) then Inl ValueError
         else Inl (SpaceNotSupported (ASpace sp))) \<and>
      packed_size (ASpace sp) = Inl (SpaceNotSupported (ASpace sp))) \<and>
   (contains_unsupported sp \<longrightarrow> (\<exists>e. pack_array cast ob sp = Inl e)) \<and>
   (pack_array cast ob sp = Inl e \<longrightarrow>
      (\<exists>u. e = SpaceNotSupported (ASpace u) \<and> unsupported u \<and> u \<in> set (sub_spaces sp)) \<or>
      (\<exists>n. e = KeyError n) \<or> e = IndexError \<or> e = TypeError \<or> e = ValueError) \<and>
   ((\<forall>(n, s') \<in> set pre. \<exists>c r. getitem ob n = Inr c \<and> pack_array cast c s' = Inr r) \<and>
    (getitem ob name = Inl e' \<or>
     (\<exists>child. getitem ob name = Inr child \<and> pack_array cast child s = Inl e')) \<longrightarrow>
      pack_array cast ob (Dict (pre @ (name, s) # post)) = Inl e') \<and>
   ((\<forall>(n, s') \<in> set pre'. \<exists>shp. s' = Box shp) \<and> unsupported u \<longrightarrow>
      unpack_array a (Dict (pre' @ (name, u) # post)) = Inl (SpaceNotSupported (ASpace u)) \<and>
      unpack_tensor_single a (Dict (pre' @ (name, u) # post)) = Inl (SpaceNotSupported (ASpace u)) \<and>
      unpack_tensor a (Dict (pre' @ (name, u) # post)) =
        (if 0 \<in> set (butlast (shape a)) then Inl ValueError
         else Inl (SpaceNotSupported (ASpace u))))"
proof (intro conjI impI)
  assume u: "unsupported sp"
  then show "pack_array cast ob sp = Inl (SpaceNotSupported (ASpace sp))"
    "unpack_array a sp = Inl (SpaceNotSupported (ASpace sp))"
    "unpack_tensor_single a sp = Inl (SpaceNotSupported (ASpace sp))"
    "packed_size (ASpace sp) = Inl (SpaceNotSupported (ASpace sp))"
    by (rule unsupported_cases)+
  show "unpack_tensor a sp =
        (if 0 \<in> set (butlast (shape a)) then Inl ValueError
         else Inl (SpaceNotSupported (ASpace sp)))"
    by (rule unpack_tensor_const_error) (rule unsupported_cases(3) [OF u])
next
  assume "contains_unsupported sp"
  then show "\<exists>e. pack_array cast ob sp = Inl e"
    by (rule pack_array_contains)
next
  assume "pack_array cast ob sp = Inl e"
  then show "(\<exists>u. e = SpaceNotSupported (ASpace u) \<and> unsupported u \<and> u \<in> set (sub_spaces sp)) \<or>
      (\<exists>n. e = KeyError n) \<or> e = IndexError \<or> e = TypeError \<or> e = ValueError"
    by (rule pack_array_errors)
next
  assume "(\<forall>(n, s') \<in> set pre. \<exists>c r. getitem ob n = Inr c \<and> pack_array cast c s' = Inr r) \<and>
    (getitem ob name = Inl e' \<or>
     (\<exists>child. getitem ob name = Inr child \<and> pack_array cast child s = Inl e'))"
  then show "pack_array cast ob (Dict (pre @ (name, s) # post)) = Inl e'"
    using pack_array_first_failure [of pre ob cast name e' s post] by blast
next
  assume a: "(\<forall>(n, s') \<in> set pre'. \<exists>shp. s' = Box shp) \<and> unsupported u"
  then have p: "\<forall>(n, s') \<in> set pre'. \<exists>shp. s' = Box shp" and u: "unsupported u"
    by simp_all
  show "unpack_array a (Dict (pre' @ (name, u) # post)) = Inl (SpaceNotSupported (ASpace u))"
    "unpack_tensor_single a (Dict (pre' @ (name, u) # post)) = Inl (SpaceNotSupported (ASpace u))"
    by (rule unpack_first_unsupported [OF p u])+
  show "unpack_tensor a (Dict (pre' @ (name, u) # post)) =
        (if 0 \<in> set (butlast (shape a)) then Inl ValueError
         else Inl (SpaceNotSupported (ASpace u)))"
    by (rule unpack_tensor_const_error) (rule unpack_first_unsupported(2) [OF p u])
qed

theorem unsupported_space_raises_witness:
  "pack_array id (ODict [(''a'', Leaf (NDArray [1] [7 :: int])), (''b'', Leaf (NDArray [] [1]))])
     (Dict [(''a'', Box [1]), (''b'', Discrete 2)]) = Inl (SpaceNotSupported (ASpace (Discrete 2))) \<and>
   pack_array id (ODict [(''a'', Leaf (NDArray [1] [7 :: int]))])
     (Dict [(''a'', Box [1]), (''b'', Discrete 2)]) = Inl (KeyError ''b'') \<and>
   (\<exists>e. pack_array id (Leaf (NDArray [1] [7 :: int])) (Dict [(''a'', Box [1]), (''b'', Discrete 2)]) =
     Inl e) \<and>
   unpack_array (NDArray [2] [7, 1 :: int]) (Dict [(''a'', Box [1]), (''b'', Discrete 2)]) =
     Inl (SpaceNotSupported (ASpace (Discrete 2))) \<and>
   unpack_tensor (NDArray [2, 2] [7, 1, 7, 1 :: int]) (Dict [(''a'', Box [1]), (''b'', Discrete 2)]) =
     Inl (SpaceNotSupported (ASpace (Discrete 2))) \<and>
   pack_array id (Leaf (NDArray [] [1 :: int])) (Discrete 2) =
     Inl (SpaceNotSupported (ASpace (Discrete 2))) \<and>
   unpack_array (NDArray [] [1 :: int]) (Discrete 2) = Inl (SpaceNotSupported (ASpace (Discrete 2))) \<and>
   unpack_tensor (NDArray [2, 1] [1, 1 :: int]) (Discrete 2) =
     Inl (SpaceNotSupported (ASpace (Discrete 2))) \<and>
   unpack_tensor (NDArray [0, 1] ([] :: int list)) (Discrete 2) = Inl ValueError \<and>
   packed_size (ASpace (Discrete 2)) = Inl (SpaceNotSupported (ASpace (Discrete 2))) \<and>
   Discrete 2 \<in> set (sub_spaces (Dict [(''a'', Box [1]), (''b'', Discrete 2)]))"
proof -
  let ?ob = "ODict [(''a'', Leaf (NDArray [1] [7 :: int])), (''b'', Leaf (NDArray [] [1]))]"
  let ?ob' = "ODict [(''a'', Leaf (NDArray [1] [7 :: int]))]"
  let ?D = "Dict [(''a'', Box [1]), (''b'', Discrete 2)]"
  let ?e = "SpaceNotSupported (ASpace (Discrete 2))"
  have u: "unsupported (Discrete 2)"
    by (simp add: unsupported_def)
  have c: "contains_unsupported ?D"
    by simp
  have D: "?D = Dict ([(''a'', Box [1])] @ (''b'', Discrete 2) # [])"
    by simp
  have pre: "\<forall>(n, s') \<in> set [(''a'', Box [1])]. \<exists>shp. s' = Box shp"
    by simp
  have ok: "\<forall>(n, s') \<in> set [(''a'', Box [1])].
      \<exists>c r. getitem ?ob n = Inr c \<and> pack_array id c s' = Inr (r :: int ndarray)"
    "\<forall>(n, s') \<in> set [(''a'', Box [1])].
      \<exists>c r. getitem ?ob' n = Inr c \<and> pack_array id c s' = Inr (r :: int ndarray)"
    by (simp_all add: getitem_def np_asarray_def np_flatten_def map_res_def)
  have child: "getitem ?ob ''b'' = Inl ?e \<or>
      (\<exists>child. getitem ?ob ''b'' = Inr child \<and> pack_array id child (Discrete 2) = Inl ?e)"
    by (simp add: getitem_def)
  have missing: "getitem ?ob' ''b'' = Inl (KeyError ''b'') \<or>
      (\<exists>child. getitem ?ob' ''b'' = Inr child \<and>
         pack_array id child (Discrete 2) = Inl (KeyError ''b''))"
    by (simp add: getitem_def)
  note top1 = unsupported_space_raises
    [where sp = "Discrete 2" and cast = id and ob = "Leaf (NDArray [] [1 :: int])"
       and a = "NDArray [] [1 :: int]", THEN conjunct1, rule_format, OF u]
  note top2 = unsupported_space_raises
    [where sp = "Discrete 2" and a = "NDArray [2, 1] [1, 1 :: int]", THEN conjunct1, rule_format, OF u]
  note top3 = unsupported_space_raises
    [where sp = "Discrete 2" and a = "NDArray [0, 1] ([] :: int list)",
     THEN conjunct1, rule_format, OF u]
  note none = unsupported_space_raises
    [where sp = ?D and cast = id and ob = "Leaf (NDArray [1] [7 :: int])",
     THEN conjunct2, THEN conjunct1, rule_format, OF c]
  note p1 = unsupported_space_raises
    [where cast = id and ob = ?ob and pre = "[(''a'', Box [1])]" and name = "''b''"
       and s = "Discrete 2" and post = "[]" and e' = ?e,
     THEN conjunct2, THEN conjunct2, THEN conjunct2, THEN conjunct1, rule_format, OF conjI, OF ok(1) child]
  note p2 = unsupported_space_raises
    [where cast = id and ob = ?ob' and pre = "[(''a'', Box [1])]" and name = "''b''"
       and s = "Discrete 2" and post = "[]" and e' = "KeyError ''b''",
     THEN conjunct2, THEN conjunct2, THEN conjunct2, THEN conjunct1, rule_format, OF conjI, OF ok(2) missing]
  note kind = unsupported_space_raises
    [where cast = id and ob = ?ob and sp = ?D and e = ?e,
     THEN conjunct2, THEN conjunct2, THEN conjunct1, rule_format]
  note un1 = unsupported_space_raises
    [where a = "NDArray [2] [7, 1 :: int]" and pre' = "[(''a'', Box [1])]" and name = "''b''"
       and u = "Discrete 2" and post = "[]",
     THEN conjunct2, THEN conjunct2, THEN conjunct2, THEN conjunct2, rule_format, OF conjI, OF pre u]
  note un2 = unsupported_space_raises
    [where a = "NDArray [2, 2] [7, 1, 7, 1 :: int]" and pre' = "[(''a'', Box [1])]" and name = "''b''"
       and u = "Discrete 2" and post = "[]",
     THEN conjunct2, THEN conjunct2, THEN conjunct2, THEN conjunct2, rule_format, OF conjI, OF pre u]
  have k: "pack_array id ?ob ?D = Inl ?e"
    using p1 by simp
  from kind [OF k] have sub: "Discrete 2 \<in> set (sub_spaces ?D)"
    by auto
  show ?thesis
    using top1 top2 top3 none p1 p2 un1 un2 sub by simp
qed

text \<open>
  C6 as stated fails: the exception need not be \<^verbatim>\<open>SpaceNotSupported\<close>. An
  observation without the key raises \<^verbatim>\<open>KeyError\<close> before the space under that key is
  looked at; an empty \<^verbatim>\<open>Dict\<close> in front of the space that is not supported raises the
  \<^verbatim>\<open>ValueError\<close> of \<^verbatim>\<open>np.concatenate\<close> on an empty list; and \<^verbatim>\<open>unpack_tensor\<close>
  on an empty batch raises the \<^verbatim>\<open>ValueError\<close> of \<^verbatim>\<open>tree.map_structure\<close> without
  looking at the space.
\<close>

theorem pack_array_other_error_first:
  "contains_unsupported (Dict [(''a'', Discrete 3)]) \<and>
   pack_array id (ODict ([] :: (string \<times> int ndarray obslike) list)) (Dict [(''a'', Discrete 3)]) =
     Inl (KeyError ''a'') \<and>
   contains_unsupported (Dict [(''e'', Dict []), (''bad'', Discrete 2)]) \<and>
   pack_array id (ODict [(''e'', ODict []), (''bad'', Leaf (NDArray [] [1 :: int]))])
     (Dict [(''e'', Dict []), (''bad'', Discrete 2)]) = Inl ValueError \<and>
   unsupported (Discrete 3) \<and>
   unpack_tensor (NDArray [0, 3] ([] :: int list)) (Discrete 3) = Inl ValueError"
  by (simp add: getitem_def np_concatenate_def unsupported_def ndim_def
      merge_unpacked_batch_def map_structure_def)

section \<open>The keys that packing reads\<close>




section \<open>The wrapper's spaces\<close>

text \<open>
  C7. When the observation space of the model is a \<^verbatim>\<open>Box\<close>, \<^verbatim>\<open>flatten_obs\<close>
  returns the observation it was given, unchanged, whatever the observation is and
  whatever gym's \<^verbatim>\<open>flatten\<close> would do.
\<close>

theorem flatten_obs_box_passthrough:
  "self_obs_space = Inr (Box shp) \<Longrightarrow> flatten_obs gym_flatten self_obs_space ob = Inr ob"
  by (simp add: flatten_obs_def isinstance_Box_def)

theorem flatten_obs_box_passthrough_witness:
  "flatten_obs (\<lambda>space ob. Inl NotImplementedError) (Inr (Box [2, 2]))
     (Leaf (NDArray [2, 2] [1, 2, 3, 4 :: int])) = Inr (Leaf (NDArray [2, 2] [1, 2, 3, 4]))"
  using flatten_obs_box_passthrough [where self_obs_space = "Inr (Box [2, 2])" and shp = "[2, 2]"
      and gym_flatten = "\<lambda>space ob. Inl NotImplementedError"
      and ob = "Leaf (NDArray [2, 2] [1, 2, 3, 4 :: int])"]
  by simp

text \<open>
  C8. \<^verbatim>\<open>RayModelWrapper.obs_space\<close> returns the \<^verbatim>\<open>original_space\<close> of the
  model's observation space when that attribute is there, and the model's observation
  space otherwise.
\<close>

theorem obs_space_prefers_original:
  "(original_space m = Some space \<longrightarrow> obs_space m = space) \<and>
   (original_space m = None \<longrightarrow> obs_space m = model_obs_space m)"
  by (simp add: obs_space_def)

theorem obs_space_prefers_original_witness:
  "obs_space \<lparr>model_obs_space = Box [3],
              original_space = Some (Dict [(''pos'', Box [2]), (''vel'', Box [1])]),
              model_action_space = Discrete 2,
              model_call = (\<lambda>(d :: nat input_dict) (s :: nat option) l. (0 :: nat, 0 :: nat))\<rparr>
     = Dict [(''pos'', Box [2]), (''vel'', Box [1])] \<and>
   obs_space \<lparr>model_obs_space = Box [3], original_space = None,
              model_action_space = Discrete 2,
              model_call = (\<lambda>(d :: nat input_dict) (s :: nat option) l. (0 :: nat, 0 :: nat))\<rparr>
     = Box [3]"
  using obs_space_prefers_original
    [of "\<lparr>model_obs_space = Box [3],
          original_space = Some (Dict [(''pos'', Box [2]), (''vel'', Box [1])]),
          model_action_space = Discrete 2,
          model_call = (\<lambda>(d :: nat input_dict) (s :: nat option) l. (0 :: nat, 0 :: nat))\<rparr>"
        "Dict [(''pos'', Box [2]), (''vel'', Box [1])]"]
    obs_space_prefers_original
    [of "\<lparr>model_obs_space = Box [3], original_space = None,
          model_action_space = Discrete 2,
          model_call = (\<lambda>(d :: nat input_dict) (s :: nat option) l. (0 :: nat, 0 :: nat))\<rparr>"]
  by simp

section \<open>The forward pass of the wrapper\<close>

lemma unpack_tensor_unbatched:
  "ndim x \<le> 1 \<Longrightarrow> unpack_tensor x space = unpack_tensor_single x space"
  by simp

text \<open>
  C1, as the code has it. The claim gives the two cases the other way round (a
  \<^verbatim>\<open>Box\<close> passed through, a \<^verbatim>\<open>Dict\<close> unpacked). In the code, when the
  observation space is a \<^verbatim>\<open>Box\<close>, \<^verbatim>\<open>"obs"\<close> is \<^verbatim>\<open>unpack_tensor(x, space)\<close>
  (for a tensor of at most one dimension: \<^verbatim>\<open>x\<close> reshaped to the shape of the
  \<^verbatim>\<open>Box\<close>, and a \<^verbatim>\<open>RuntimeError\<close> when the sizes differ) and \<^verbatim>\<open>"obs_flat"\<close>
  is \<^verbatim>\<open>x\<close>; for every other space, a \<^verbatim>\<open>Dict\<close> too, \<^verbatim>\<open>x\<close> itself is both
  \<^verbatim>\<open>"obs"\<close> and \<^verbatim>\<open>"obs_flat"\<close> and nothing is unpacked.
\<close>

theorem forward_input_by_space:
  "(obs_space m = Box shp \<longrightarrow>
      forward_input m x =
        map_res (\<lambda>unpacked. \<lparr>obs = unpacked, obs_flat = x\<rparr>) (unpack_tensor x (Box shp))) \<and>
   (obs_space m = Box shp \<and> ndim x \<le> 1 \<longrightarrow>
      forward_input m x =
        (if prod_list shp = length (data x)
         then Inr \<lparr>obs = Leaf (NDArray shp (data x)), obs_flat = x\<rparr>
         else Inl RuntimeError)) \<and>
   (\<not> isinstance_Box (obs_space m) \<longrightarrow>
      forward_input m x = Inr \<lparr>obs = Leaf x, obs_flat = x\<rparr>) \<and>
   (obs_space m = Dict spaces \<longrightarrow>
      forward_input m x = Inr \<lparr>obs = Leaf x, obs_flat = x\<rparr>)"
  by (simp add: forward_input_def isinstance_Box_def map_res_def torch_reshape_def)

theorem forward_input_by_space_witness:
  "forward_input
     \<lparr>model_obs_space = Box [2, 2], original_space = None, model_action_space = Discrete 2,
      model_call = (\<lambda>(d :: int input_dict) (s :: nat option) l. (sum_list (data (obs_flat d)), 0 :: nat))\<rparr>
     (NDArray [4] [1, 2, 3, 4]) =
     Inr \<lparr>obs = Leaf (NDArray [2, 2] [1, 2, 3, 4]), obs_flat = NDArray [4] [1, 2, 3, 4]\<rparr> \<and>
   forward_input
     \<lparr>model_obs_space = Box [3], original_space = Some (Dict [(''pos'', Box [2]), (''vel'', Box [1])]),
      model_action_space = Discrete 2,
      model_call = (\<lambda>(d :: int input_dict) (s :: nat option) l. (sum_list (data (obs_flat d)), 0 :: nat))\<rparr>
     (NDArray [3] [1, 2, 3]) =
     Inr \<lparr>obs = Leaf (NDArray [3] [1, 2, 3]), obs_flat = NDArray [3] [1, 2, 3]\<rparr>"
  using forward_input_by_space
    [of "\<lparr>model_obs_space = Box [2, 2], original_space = None, model_action_space = Discrete 2,
      model_call = (\<lambda>(d :: int input_dict) (s :: nat option) l. (sum_list (data (obs_flat d)), 0 :: nat))\<rparr>"
      "[2, 2]" "NDArray [4] [1, 2, 3, 4]"]
    forward_input_by_space
    [of "\<lparr>model_obs_space = Box [3], original_space = Some (Dict [(''pos'', Box [2]), (''vel'', Box [1])]),
      model_action_space = Discrete 2,
      model_call = (\<lambda>(d :: int input_dict) (s :: nat option) l. (sum_list (data (obs_flat d)), 0 :: nat))\<rparr>"
      _ "NDArray [3] [1, 2, 3]" "[(''pos'', Box [2]), (''vel'', Box [1])]"]
  by (simp add: obs_space_def ndim_def isinstance_Box_def map_res_def torch_reshape_def)

text \<open>
  C1 as stated fails. With a \<^verbatim>\<open>Dict\<close> space the flat block \<^verbatim>\<open>[1, 2, 3]\<close> is
  \<^verbatim>\<open>"obs"\<close> as it is, not the dictionary that \<^verbatim>\<open>unpack_tensor\<close> makes of it; with
  the space \<^verbatim>\<open>Box(shape=(2, 2))\<close> the flat block \<^verbatim>\<open>[1, 2, 3, 4]\<close> is not passed
  through: \<^verbatim>\<open>"obs"\<close> has the shape \<^verbatim>\<open>(2, 2)\<close>.
\<close>

theorem forward_unpacks_box_not_dict:
  "forward_input
     \<lparr>model_obs_space = Box [3], original_space = Some (Dict [(''pos'', Box [2]), (''vel'', Box [1])]),
      model_action_space = Discrete 2,
      model_call = (\<lambda>(d :: int input_dict) (s :: nat option) l. (sum_list (data (obs_flat d)), 0 :: nat))\<rparr>
     (NDArray [3] [1, 2, 3]) =
     Inr \<lparr>obs = Leaf (NDArray [3] [1, 2, 3]), obs_flat = NDArray [3] [1, 2, 3]\<rparr> \<and>
   unpack_tensor (NDArray [3] [1, 2, 3 :: int]) (Dict [(''pos'', Box [2]), (''vel'', Box [1])]) =
     Inr (ODict [(''pos'', Leaf (NDArray [2] [1, 2])), (''vel'', Leaf (NDArray [1] [3]))]) \<and>
   Leaf (NDArray [3] [1, 2, 3 :: int]) \<noteq>
     ODict [(''pos'', Leaf (NDArray [2] [1, 2])), (''vel'', Leaf (NDArray [1] [3]))] \<and>
   forward_input
     \<lparr>model_obs_space = Box [2, 2], original_space = None, model_action_space = Discrete 2,
      model_call = (\<lambda>(d :: int input_dict) (s :: nat option) l. (sum_list (data (obs_flat d)), 0 :: nat))\<rparr>
     (NDArray [4] [1, 2, 3, 4]) =
     Inr \<lparr>obs = Leaf (NDArray [2, 2] [1, 2, 3, 4]), obs_flat = NDArray [4] [1, 2, 3, 4]\<rparr> \<and>
   Leaf (NDArray [2, 2] [1, 2, 3, 4 :: int]) \<noteq> Leaf (NDArray [4] [1, 2, 3, 4])"
  by (simp add: forward_input_def obs_space_def isinstance_Box_def ndim_def map_res_def
      torch_reshape_def torch_split_def slice0_def ordered_dict_def)

text \<open>
  C10, as the code has it. \<^verbatim>\<open>forward\<close> builds the input first. When that raises, which
  happens only with a \<^verbatim>\<open>Box\<close> space on which \<^verbatim>\<open>unpack_tensor\<close> raises,
  \<^verbatim>\<open>forward\<close> raises the same exception and the model is not called: the outcome is
  the same for every model with that observation space. Otherwise, always when the space
  is not a \<^verbatim>\<open>Box\<close>, \<^verbatim>\<open>forward\<close> calls the wrapped model on the input with the state
  \<^verbatim>\<open>None\<close> and the sequence lengths \<^verbatim>\<open>None\<close> and returns the first component of what
  the model returns. So the result depends on the model only through the first component
  of its answers at \<^verbatim>\<open>None\<close>, \<^verbatim>\<open>None\<close>: two models with the same observation space
  that agree there give the same \<^verbatim>\<open>forward\<close>, whatever they do with a state.
\<close>

theorem forward_calls_model_without_state:
  "(forward_input m x = Inr d \<longrightarrow> forward m x = Inr (fst (model_call m d None None))) \<and>
   (forward_input m x = Inl e \<longrightarrow>
      forward m x = Inl e \<and> (obs_space m' = obs_space m \<longrightarrow> forward m' x = Inl e)) \<and>
   (\<not> isinstance_Box (obs_space m) \<longrightarrow>
      forward m x = Inr (fst (model_call m \<lparr>obs = Leaf x, obs_flat = x\<rparr> None None))) \<and>
   (obs_space m = Box shp \<and> ndim x \<le> 1 \<longrightarrow>
      forward m x =
        (if prod_list shp = length (data x)
         then Inr (fst (model_call m \<lparr>obs = Leaf (NDArray shp (data x)), obs_flat = x\<rparr> None None))
         else Inl RuntimeError)) \<and>
   (obs_space m = obs_space m' \<and>
    (\<forall>d. fst (model_call m d None None) = fst (model_call m' d None None)) \<longrightarrow>
      forward m x = forward m' x)"
  by (auto simp: forward_def forward_input_def isinstance_Box_def map_res_def torch_reshape_def
      split: sum.splits)

theorem forward_calls_model_without_state_witness:
  "forward
     \<lparr>model_obs_space = Box [3], original_space = Some (Dict [(''pos'', Box [2]), (''vel'', Box [1])]),
      model_action_space = Discrete 2,
      model_call = (\<lambda>(d :: int input_dict) (s :: int option) l.
                      (sum_list (data (obs_flat d)) + (case s of None \<Rightarrow> 0 | Some h \<Rightarrow> h), 1 :: int))\<rparr>
     (NDArray [3] [1, 2, 3]) = Inr 6 \<and>
   forward
     \<lparr>model_obs_space = Box [3], original_space = Some (Dict [(''pos'', Box [2]), (''vel'', Box [1])]),
      model_action_space = Discrete 2,
      model_call = (\<lambda>(d :: int input_dict) (s :: bool option) l.
                      (sum_list (data (obs_flat d)) + (case s of None \<Rightarrow> 0 | Some h \<Rightarrow> 5), True))\<rparr>
     (NDArray [3] [1, 2, 3]) = Inr 6 \<and>
   forward
     \<lparr>model_obs_space = Box [2, 2], original_space = None, model_action_space = Discrete 2,
      model_call = (\<lambda>(d :: int input_dict) (s :: int option) l.
                      (sum_list (data (obs_flat d)) + (case s of None \<Rightarrow> 0 | Some h \<Rightarrow> h), 1 :: int))\<rparr>
     (NDArray [4] [1, 2, 3, 4]) = Inr 10 \<and>
   forward
     \<lparr>model_obs_space = Box [2, 2], original_space = None, model_action_space = Discrete 2,
      model_call = (\<lambda>(d :: int input_dict) (s :: int option) l.
                      (sum_list (data (obs_flat d)) + (case s of None \<Rightarrow> 0 | Some h \<Rightarrow> h), 1 :: int))\<rparr>
     (NDArray [3] [1, 2, 3]) = Inl RuntimeError \<and>
   forward
     \<lparr>model_obs_space = Box [2, 2], original_space = None, model_action_space = Discrete 2,
      model_call = (\<lambda>(d :: int input_dict) (s :: bool option) l. (0 :: int, True))\<rparr>
     (NDArray [3] [1, 2, 3]) = Inl RuntimeError"
  (is "forward ?m ?x = Inr 6 \<and> forward ?m' ?x = Inr 6 \<and> forward ?b ?y = Inr 10 \<and>
       forward ?b ?x = Inl RuntimeError \<and> forward ?b' ?x = Inl RuntimeError")
proof -
  note dict = forward_calls_model_without_state [where m = ?m and x = ?x and m' = ?m']
  note box = forward_calls_model_without_state
    [where m = ?b and x = ?y and shp = "[2, 2]"
       and d = "\<lparr>obs = Leaf (NDArray [2, 2] [1, 2, 3, 4]), obs_flat = ?y\<rparr>"]
  note bad = forward_calls_model_without_state
    [where m = ?b and x = ?x and e = RuntimeError and m' = ?b']
  have nb: "\<not> isinstance_Box (obs_space ?m)"
    by (simp add: obs_space_def isinstance_Box_def)
  have "forward ?m ?x = Inr (fst (model_call ?m \<lparr>obs = Leaf ?x, obs_flat = ?x\<rparr> None None))"
    using dict nb by blast
  then have a: "forward ?m ?x = Inr 6"
    by simp
  have eq: "obs_space ?m = obs_space ?m'"
    by (simp add: obs_space_def)
  have ag: "\<forall>d. fst (model_call ?m d None None) = fst (model_call ?m' d None None)"
    by simp
  have "forward ?m ?x = forward ?m' ?x"
    using dict eq ag by blast
  with a have a': "forward ?m' ?x = Inr 6"
    by simp
  have built: "forward_input ?b ?y = Inr \<lparr>obs = Leaf (NDArray [2, 2] [1, 2, 3, 4]), obs_flat = ?y\<rparr>"
    by (simp add: forward_input_def obs_space_def isinstance_Box_def ndim_def map_res_def
        torch_reshape_def)
  have "forward ?b ?y =
      Inr (fst (model_call ?b \<lparr>obs = Leaf (NDArray [2, 2] [1, 2, 3, 4]), obs_flat = ?y\<rparr> None None))"
    using box built by blast
  then have b: "forward ?b ?y = Inr 10"
    by simp
  have flat: "obs_space ?b = Box [2, 2] \<and> ndim ?y \<le> 1"
    by (simp add: obs_space_def ndim_def)
  note reshaped = box [THEN conjunct2, THEN conjunct2, THEN conjunct2, THEN conjunct1, THEN mp, OF flat]
  have "forward ?b ?y = Inr 10"
    using reshaped by simp
  have raised: "forward_input ?b ?x = Inl RuntimeError"
    by (simp add: forward_input_def obs_space_def isinstance_Box_def ndim_def map_res_def
        torch_reshape_def)
  have same: "obs_space ?b' = obs_space ?b"
    by (simp add: obs_space_def)
  have c: "forward ?b ?x = Inl RuntimeError" and c': "forward ?b' ?x = Inl RuntimeError"
    using bad raised same by blast+
  from a a' b c c' show ?thesis
    by (intro conjI)
qed

text \<open>
  C10 as stated fails: not every input reaches the model. With the space
  \<^verbatim>\<open>Box(shape=(2,))\<close> and a tensor of three elements \<^verbatim>\<open>unpack_tensor\<close> raises
  \<^verbatim>\<open>RuntimeError\<close> in \<^verbatim>\<open>reshape\<close>, and \<^verbatim>\<open>forward\<close> raises it before the call.
\<close>

theorem forward_raises_before_the_call:
  "forward
     \<lparr>model_obs_space = Box [2], original_space = None, model_action_space = Discrete 2,
      model_call = (\<lambda>(d :: int input_dict) (s :: int option) l.
                      (sum_list (data (obs_flat d)), 1 :: int))\<rparr>
     (NDArray [3] [1, 2, 3]) = Inl RuntimeError"
  by (simp add: forward_def forward_input_def obs_space_def isinstance_Box_def ndim_def
      map_res_def torch_reshape_def)

section \<open>Unpacking a batch\<close>

text \<open>
  What the proofs below need to say about a result of \<^verbatim>\<open>unpack_tensor\<close>: it has the
  names of the space, each once, and under them well-formed tensors whose shapes are the
  shapes of the \<^verbatim>\<open>Box\<close>es behind the batch dimensions of the input. \<open>shapes_of\<close>
  gives these shapes for an input without batch dimensions, \<open>fits\<close> compares a result
  with them, and \<open>nth_child\<close> is the value at a position of a dictionary.
\<close>

fun fits :: "nat list obslike \<Rightarrow> 'a ndarray obslike \<Rightarrow> bool" where
  "fits (Leaf shp) (Leaf t) = (shape t = shp \<and> wf_array t)"
| "fits (ODict Ts) (ODict ps) =
     (distinct (map fst Ts) \<and> list_all2 (\<lambda>(k, T) (k', p). k = k' \<and> fits T p) Ts ps)"
| "fits _ _ = False"

fun shapes_of :: "space \<Rightarrow> nat list obslike" where
  "shapes_of (Box shp) = Leaf shp"
| "shapes_of (Dict spaces) = ODict (ordered_dict (map (\<lambda>(name, s). (name, shapes_of s)) spaces))"
| "shapes_of _ = Leaf []"

definition nth_child :: "nat \<Rightarrow> 'l obslike \<Rightarrow> 'l obslike" where
  "nth_child i r = (case r of Leaf x \<Rightarrow> Leaf x | ODict ps \<Rightarrow> snd (ps ! i))"

subsection \<open>Slices and dictionaries\<close>

lemma concat_nth_block:
  assumes "\<forall>xs \<in> set xss. length xs = n" and "b < length xss"
  shows "take n (drop (b * n) (concat xss)) = xss ! b"
  using assms
proof (induction xss arbitrary: b)
  case Nil
  then show ?case by simp
next
  case (Cons xs xss)
  show ?case
  proof (cases b)
    case 0
    with Cons.prems show ?thesis by simp
  next
    case (Suc b')
    with Cons.prems have "take n (drop (b' * n) (concat xss)) = xss ! b'"
      by (intro Cons.IH) auto
    with Suc Cons.prems show ?thesis by simp
  qed
qed

lemma length_concat_blocks:
  "\<forall>xs \<in> set xss. length xs = n \<Longrightarrow> length (concat xss) = length xss * n"
  by (induction xss) auto

lemma select0_wf:
  assumes "wf_array t" and "shape t = n # rest" and "b < n"
  shows "wf_array (select0 t b) \<and> shape (select0 t b) = rest"
proof -
  have "prod_list rest + b * prod_list rest \<le> n * prod_list rest"
  proof -
    from assms(3) have "Suc b \<le> n" by simp
    then have "Suc b * prod_list rest \<le> n * prod_list rest"
      by (rule mult_le_mono1)
    then show ?thesis by simp
  qed
  with assms(1,2) show ?thesis
    by (simp add: wf_array_def select0_def Let_def)
qed

lemma slice0_wf:
  assumes "wf_array t" and "shape t = n # rest"
  shows "wf_array (slice0 t st en) \<and> shape (slice0 t st en) = (min en n - min st n) # rest"
proof -
  have "(min en n - min st n) * prod_list rest \<le> n * prod_list rest - min st n * prod_list rest"
    by (simp add: diff_mult_distrib diff_le_mono)
  with assms show ?thesis
    by (simp add: wf_array_def slice0_def Let_def)
qed

lemma split_from_wf:
  assumes "wf_array t" and "shape t = [n]" and "c \<in> set (split_from t start sizes)"
  shows "wf_array c \<and> ndim c = 1"
  using assms(3)
proof (induction sizes arbitrary: start)
  case Nil
  then show ?case by simp
next
  case (Cons k sizes)
  from slice0_wf [OF assms(1,2)] have "wf_array (slice0 t start (start + k)) \<and> ndim (slice0 t start (start + k)) = 1"
    by (simp add: ndim_def)
  with Cons show ?case by auto
qed

lemma keys_dict_set:
  "map fst (dict_set k v d) = (if k \<in> set (map fst d) then map fst d else map fst d @ [k])"
  by (induction d) (auto split: if_splits)

lemma distinct_dict_set: "distinct (map fst d) \<Longrightarrow> distinct (map fst (dict_set k v d))"
  by (simp add: keys_dict_set)

lemma distinct_foldl_dict_set:
  "distinct (map fst acc) \<Longrightarrow> distinct (map fst (foldl (\<lambda>d (k, v). dict_set k v d) acc pairs))"
  by (induction pairs arbitrary: acc) (auto simp: distinct_dict_set)

lemma distinct_ordered_dict: "distinct (map fst (ordered_dict pairs))"
  unfolding ordered_dict_def by (rule distinct_foldl_dict_set) simp

lemma dict_set_rel:
  assumes "list_all2 (\<lambda>(k, a) (k', b). k = k' \<and> R a b) d d'" and "R a b"
  shows "list_all2 (\<lambda>(k, a) (k', b). k = k' \<and> R a b) (dict_set k a d) (dict_set k b d')"
  using assms(1)
proof (induction d d' rule: list_all2_induct)
  case Nil
  with assms(2) show ?case by simp
next
  case (Cons x xs y ys)
  with assms(2) show ?case
    by (cases x; cases y) auto
qed

lemma foldl_dict_set_rel:
  assumes "list_all2 (\<lambda>(k, a) (k', b). k = k' \<and> R a b) xs ys"
    and "list_all2 (\<lambda>(k, a) (k', b). k = k' \<and> R a b) acc acc'"
  shows "list_all2 (\<lambda>(k, a) (k', b). k = k' \<and> R a b)
           (foldl (\<lambda>d (k, v). dict_set k v d) acc xs) (foldl (\<lambda>d (k, v). dict_set k v d) acc' ys)"
  using assms
proof (induction xs ys arbitrary: acc acc' rule: list_all2_induct)
  case Nil
  then show ?case by simp
next
  case (Cons x xs y ys)
  obtain k a where x: "x = (k, a)" by (cases x)
  obtain k' b where y: "y = (k', b)" by (cases y)
  from Cons.hyps(1) x y have kk: "k' = k" and ab: "R a b" by auto
  have "list_all2 (\<lambda>(k, a) (k', b). k = k' \<and> R a b) (dict_set k a acc) (dict_set k b acc')"
    using Cons.prems ab by (rule dict_set_rel)
  from Cons.IH [OF this] x y kk show ?case by simp
qed

lemma ordered_dict_rel:
  "list_all2 (\<lambda>(k, a) (k', b). k = k' \<and> R a b) xs ys \<Longrightarrow>
   list_all2 (\<lambda>(k, a) (k', b). k = k' \<and> R a b) (ordered_dict xs) (ordered_dict ys)"
  unfolding ordered_dict_def by (rule foldl_dict_set_rel) simp_all

lemma aligned_nth:
  assumes "list_all2 (\<lambda>(k, T) (k', p). k = k' \<and> Q T p) Ts ps"
  shows "length ps = length Ts"
    and "map fst ps = map fst Ts"
    and "i < length Ts \<Longrightarrow> fst (ps ! i) = fst (Ts ! i) \<and> Q (snd (Ts ! i)) (snd (ps ! i))"
proof -
  from assms show len: "length ps = length Ts"
    by (simp add: list_all2_lengthD)
  have nth: "fst (ps ! j) = fst (Ts ! j) \<and> Q (snd (Ts ! j)) (snd (ps ! j))" if "j < length Ts" for j
    using list_all2_nthD [OF assms that] by (simp add: case_prod_unfold)
  then show "i < length Ts \<Longrightarrow> fst (ps ! i) = fst (Ts ! i) \<and> Q (snd (Ts ! i)) (snd (ps ! i))" .
  show "map fst ps = map fst Ts"
    using len nth by (intro nth_equalityI) simp_all
qed

lemma fits_ODict_cases:
  assumes "fits (ODict Ts) r"
  obtains ps where "r = ODict ps" and "distinct (map fst Ts)"
    and "list_all2 (\<lambda>(k, T) (k', p). k = k' \<and> fits T p) Ts ps"
  using assms by (cases r) auto

lemma fits_Leaf_cases:
  assumes "fits (Leaf shp) r"
  obtains t where "r = Leaf t" and "shape t = shp" and "wf_array t"
  using assms by (cases r) auto

lemma fits_ODict_nth:
  assumes "fits (ODict Ts) (ODict ps)" and "i < length Ts"
  shows "length ps = length Ts" and "map fst ps = map fst Ts" and "fst (ps ! i) = fst (Ts ! i)"
    and "fits (snd (Ts ! i)) (snd (ps ! i))"
    and "map_of ps (fst (Ts ! i)) = Some (snd (ps ! i))"
proof -
  from assms(1) have d: "distinct (map fst Ts)"
    and a: "list_all2 (\<lambda>(k, T) (k', p). k = k' \<and> fits T p) Ts ps"
    by simp_all
  show len: "length ps = length Ts" and keys: "map fst ps = map fst Ts"
    using aligned_nth(1,2) [OF a] by simp_all
  show k: "fst (ps ! i) = fst (Ts ! i)" and "fits (snd (Ts ! i)) (snd (ps ! i))"
    using aligned_nth(3) [OF a assms(2)] by simp_all
  have "ps ! i \<in> set ps"
    using assms(2) len by simp
  then have "(fst (Ts ! i), snd (ps ! i)) \<in> set ps"
    using k by (metis prod.collapse)
  moreover have "distinct (map fst ps)"
    using d keys by simp
  ultimately show "map_of ps (fst (Ts ! i)) = Some (snd (ps ! i))"
    by (rule map_of_is_SomeI [rotated])
qed

lemma fits_same_structure: "fits T r \<Longrightarrow> fits T s \<Longrightarrow> same_structure r s"
proof (induction T arbitrary: r s)
  case (Leaf shp)
  then show ?case
    by (cases r; cases s) auto
next
  case (ODict Ts)
  from ODict.prems(1) obtain ps where r: "r = ODict ps"
    by (rule fits_ODict_cases)
  from ODict.prems(2) obtain qs where s: "s = ODict qs"
    by (rule fits_ODict_cases)
  have fr: "fits (ODict Ts) (ODict ps)" and fs: "fits (ODict Ts) (ODict qs)"
    using ODict.prems r s by simp_all
  have len: "length ps = length Ts" "length qs = length Ts"
    using aligned_nth(1) fr fs by auto
  have keys: "map fst ps = map fst Ts" "map fst qs = map fst Ts"
    using aligned_nth(2) fr fs by auto
  have "case ps ! i of (k, p) \<Rightarrow> (case map_of qs k of None \<Rightarrow> False | Some q \<Rightarrow> same_structure p q)"
    if i: "i < length ps" for i
  proof -
    from i len have i': "i < length Ts" by simp
    have "Ts ! i \<in> set Ts" using i' by simp
    moreover have "snd (Ts ! i) \<in> Basic_BNFs.snds (Ts ! i)"
      by (cases "Ts ! i") simp
    ultimately have "same_structure (snd (ps ! i)) (snd (qs ! i))"
      using fits_ODict_nth(4) [OF fr i'] fits_ODict_nth(4) [OF fs i'] by (rule ODict.IH)
    moreover have "map_of qs (fst (ps ! i)) = Some (snd (qs ! i))"
      using fits_ODict_nth(3) [OF fr i'] fits_ODict_nth(5) [OF fs i'] by simp
    ultimately show ?thesis
      by (simp add: case_prod_unfold)
  qed
  then have "list_all (\<lambda>(k, p). case map_of qs k of None \<Rightarrow> False | Some q \<Rightarrow> same_structure p q) ps"
    by (simp add: list_all_length)
  moreover have "set (map fst ps) = set (map fst qs)"
    using keys by simp
  ultimately show ?case
    using r s by simp
qed

lemma stack_fits:
  assumes "ts \<noteq> []" and "\<forall>t \<in> set ts. shape t = shp \<and> wf_array t"
  shows "torch_stack ts = Inr (NDArray (length ts # shp) (concat (map data ts)))"
    and "wf_array (NDArray (length ts # shp) (concat (map data ts)))"
    and "b < length ts \<Longrightarrow> select0 (NDArray (length ts # shp) (concat (map data ts))) b = ts ! b"
proof -
  from assms obtain t rest where ts: "ts = t # rest"
    by (cases ts) auto
  with assms(2) have "\<not> list_ex (\<lambda>u. shape u \<noteq> shape t) rest" and "shape t = shp"
    by (auto simp: list_ex_iff)
  then show "torch_stack ts = Inr (NDArray (length ts # shp) (concat (map data ts)))"
    by (simp add: torch_stack_def ts)
  have lens: "\<forall>xs \<in> set (map data ts). length xs = prod_list shp"
    using assms(2) by (auto simp: wf_array_def)
  then have "length (concat (map data ts)) = length ts * prod_list shp"
    using length_concat_blocks by fastforce
  then show "wf_array (NDArray (length ts # shp) (concat (map data ts)))"
    by (simp add: wf_array_def)
  assume b: "b < length ts"
  then have "take (prod_list shp) (drop (b * prod_list shp) (concat (map data ts))) = map data ts ! b"
    using lens by (intro concat_nth_block) simp_all
  moreover have "shape (ts ! b) = shp"
    using assms(2) b by simp
  ultimately show "select0 (NDArray (length ts # shp) (concat (map data ts))) b = ts ! b"
    using b by (cases "ts ! b") (simp add: select0_def Let_def)
qed

lemma leaves_of_leaves:
  "\<forall>r \<in> set rs. \<exists>y. r = Leaf y \<Longrightarrow> map Leaf (concat (map leaf_of rs)) = rs"
  by (induction rs) (auto simp: leaf_of_def)

lemma children_of_dicts:
  assumes "\<forall>r \<in> set rs. fits (ODict Ts) r" and "i < length Ts"
  shows "concat (map (child_of (fst (Ts ! i))) rs) = map (nth_child i) rs"
  using assms(1)
proof (induction rs)
  case Nil
  then show ?case by simp
next
  case (Cons r rs)
  then have "fits (ODict Ts) r" by simp
  then obtain ps where r: "r = ODict ps"
    by (rule fits_ODict_cases)
  with \<open>fits (ODict Ts) r\<close> have "map_of ps (fst (Ts ! i)) = Some (snd (ps ! i))"
    using fits_ODict_nth(5) assms(2) by blast
  then have "child_of (fst (Ts ! i)) r = [nth_child i r]"
    by (simp add: child_of_def nth_child_def r)
  with Cons show ?case by simp
qed

subsection \<open>Merging results of one shape\<close>

lemma traverse_zip_fits:
  assumes "\<forall>r \<in> set (s0 # others). fits T r"
  shows "\<exists>R. traverse torch_stack (zip_leaves s0 others) = Inr R \<and>
             fits (map_obslike ((#) (Suc (length others))) T) R \<and>
             (\<forall>b < Suc (length others). map_obslike (\<lambda>t. select0 t b) R = (s0 # others) ! b)"
  using assms
proof (induction T arbitrary: s0 others)
  case (Leaf shp)
  from Leaf.prems obtain x where s0: "s0 = Leaf x"
    by (auto elim: fits_Leaf_cases)
  have "\<exists>y. r = Leaf y" if "r \<in> set others" for r
  proof -
    from that Leaf.prems have "fits (Leaf shp) r" by simp
    then show ?thesis by (cases r) simp_all
  qed
  then have "\<forall>r \<in> set others. \<exists>y. r = Leaf y"
    by blast
  then have others: "map Leaf (concat (map leaf_of others)) = others"
    by (rule leaves_of_leaves)
  define ts where "ts = x # concat (map leaf_of others)"
  have all: "map Leaf ts = s0 # others"
    using others s0 by (simp add: ts_def)
  then have len: "length ts = Suc (length others)"
    by (metis length_Cons length_map)
  have nth: "(s0 # others) ! b = Leaf (ts ! b)" if "b < length ts" for b
    using that all by (metis nth_map)
  have "shape t = shp \<and> wf_array t" if "t \<in> set ts" for t
  proof -
    from that have "Leaf t \<in> set (s0 # others)"
      using all by (metis image_eqI list.set_map)
    with Leaf.prems have "fits (Leaf shp) (Leaf t)" by blast
    then show ?thesis by simp
  qed
  then have good: "\<forall>t \<in> set ts. shape t = shp \<and> wf_array t"
    by blast
  have ne: "ts \<noteq> []"
    by (simp add: ts_def)
  let ?R = "NDArray (length ts # shp) (concat (map data ts))"
  have "traverse torch_stack (zip_leaves s0 others) = Inr (Leaf ?R)"
    using stack_fits(1) [OF ne good] by (simp add: s0 ts_def map_res_def)
  moreover have "fits (map_obslike ((#) (Suc (length others))) (Leaf shp)) (Leaf ?R)"
    using stack_fits(2) [OF ne good] len by simp
  moreover have "\<forall>b < Suc (length others). map_obslike (\<lambda>t. select0 t b) (Leaf ?R) = (s0 # others) ! b"
    using stack_fits(3) [OF ne good] nth len by simp
  ultimately show ?case by blast
next
  case (ODict Ts)
  let ?N = "Suc (length others)"
  let ?g = "\<lambda>(k, p'). map_res (Pair k) (traverse torch_stack p')"
  from ODict.prems obtain ps where s0: "s0 = ODict ps"
    by (auto elim: fits_ODict_cases)
  have f0: "fits (ODict Ts) (ODict ps)"
    using ODict.prems s0 by simp
  have d: "distinct (map fst Ts)"
    using f0 by simp
  have lenps: "length ps = length Ts"
    using fits_ODict_nth(1) f0 by (cases Ts) (auto dest: list_all2_lengthD)
  have fo: "\<forall>r \<in> set others. fits (ODict Ts) r"
    using ODict.prems by simp
  define zs where "zs = map (\<lambda>(k, p). (k, zip_leaves p (concat (map (child_of k) others)))) ps"
  have lenzs: "length zs = length Ts"
    by (simp add: zs_def lenps)
  have zi: "zs ! i = (fst (Ts ! i), zip_leaves (snd (ps ! i)) (map (nth_child i) others))"
    if i: "i < length Ts" for i
  proof -
    have "zs ! i = (fst (ps ! i), zip_leaves (snd (ps ! i)) (concat (map (child_of (fst (ps ! i))) others)))"
      using i lenps by (simp add: zs_def case_prod_unfold)
    then show ?thesis
      using fits_ODict_nth(3) [OF f0 i] children_of_dicts [OF fo i] by simp
  qed
  have step: "\<exists>R. traverse torch_stack (zip_leaves (snd (ps ! i)) (map (nth_child i) others)) = Inr R \<and>
                fits (map_obslike ((#) ?N) (snd (Ts ! i))) R \<and>
                (\<forall>b < ?N. map_obslike (\<lambda>t. select0 t b) R = nth_child i ((s0 # others) ! b))"
    if i: "i < length Ts" for i
  proof -
    have mem: "Ts ! i \<in> set Ts" using i by simp
    have snds: "snd (Ts ! i) \<in> Basic_BNFs.snds (Ts ! i)"
      by (cases "Ts ! i") simp
    have "fits (snd (Ts ! i)) r" if "r \<in> set (snd (ps ! i) # map (nth_child i) others)" for r
    proof -
      from that consider "r = snd (ps ! i)" | r' where "r' \<in> set others" "r = nth_child i r'"
        by auto
      then show ?thesis
      proof cases
        case 1
        then show ?thesis using fits_ODict_nth(4) [OF f0 i] by simp
      next
        case 2
        with fo have "fits (ODict Ts) r'" by simp
        then obtain qs where r': "r' = ODict qs"
          by (rule fits_ODict_cases)
        with \<open>fits (ODict Ts) r'\<close> have "fits (snd (Ts ! i)) (snd (qs ! i))"
          using fits_ODict_nth(4) i by blast
        then show ?thesis
          by (simp add: 2 r' nth_child_def)
      qed
    qed
    then have "\<forall>r \<in> set (snd (ps ! i) # map (nth_child i) others). fits (snd (Ts ! i)) r"
      by blast
    from ODict.IH [OF mem snds this]
    obtain R where R: "traverse torch_stack (zip_leaves (snd (ps ! i)) (map (nth_child i) others)) = Inr R"
      "fits (map_obslike ((#) ?N) (snd (Ts ! i))) R"
      "\<forall>b < ?N. map_obslike (\<lambda>t. select0 t b) R = (snd (ps ! i) # map (nth_child i) others) ! b"
      by auto
    have "(snd (ps ! i) # map (nth_child i) others) ! b = nth_child i ((s0 # others) ! b)"
      if "b < ?N" for b
      using that by (cases b) (simp_all add: s0 nth_child_def)
    with R show ?thesis by auto
  qed
  have "\<exists>v. ?g z = Inr v" if "z \<in> set zs" for z
  proof -
    from that obtain i where i: "i < length Ts" "z = zs ! i"
      using lenzs by (metis in_set_conv_nth)
    with step [OF i(1)] zi [OF i(1)] show ?thesis
      by (auto simp: map_res_def)
  qed
  then have "\<forall>z \<in> set zs. \<exists>v. ?g z = Inr v"
    by blast
  then obtain vs where vs: "collect (map ?g zs) = Inr vs" "list_all2 (\<lambda>z v. ?g z = Inr v) zs vs"
    using collect_all_Inr by blast
  have lenvs: "length vs = length Ts"
    using vs(2) lenzs by (auto dest: list_all2_lengthD)
  have vi: "fst (vs ! i) = fst (Ts ! i) \<and>
            fits (map_obslike ((#) ?N) (snd (Ts ! i))) (snd (vs ! i)) \<and>
            (\<forall>b < ?N. map_obslike (\<lambda>t. select0 t b) (snd (vs ! i)) = nth_child i ((s0 # others) ! b))"
    if i: "i < length Ts" for i
  proof -
    have "?g (zs ! i) = Inr (vs ! i)"
      using list_all2_nthD [OF vs(2)] i lenzs by simp
    then have "map_res (Pair (fst (Ts ! i)))
        (traverse torch_stack (zip_leaves (snd (ps ! i)) (map (nth_child i) others))) = Inr (vs ! i)"
      using zi [OF i] by simp
    moreover from step [OF i] obtain R where
      R: "traverse torch_stack (zip_leaves (snd (ps ! i)) (map (nth_child i) others)) = Inr R"
      "fits (map_obslike ((#) ?N) (snd (Ts ! i))) R"
      "\<forall>b < ?N. map_obslike (\<lambda>t. select0 t b) R = nth_child i ((s0 # others) ! b)"
      by blast
    ultimately have "vs ! i = (fst (Ts ! i), R)"
      by (simp add: map_res_def)
    with R show ?thesis by simp
  qed
  have res: "traverse torch_stack (zip_leaves s0 others) = Inr (ODict vs)"
    using vs(1) by (simp add: s0 zs_def map_res_def)
  have "list_all2 (\<lambda>(k, T) (k', p). k = k' \<and> fits T p)
          (map (map_prod id (map_obslike ((#) ?N))) Ts) vs"
    using lenvs vi by (auto simp: list_all2_conv_all_nth case_prod_unfold)
  then have fit: "fits (map_obslike ((#) ?N) (ODict Ts)) (ODict vs)"
    using d by (simp add: comp_def)
  have sl: "map_obslike (\<lambda>t. select0 t b) (ODict vs) = (s0 # others) ! b" if b: "b < ?N" for b
  proof -
    have "(s0 # others) ! b \<in> set (s0 # others)"
      using b by (metis length_Cons nth_mem)
    with ODict.prems have fb: "fits (ODict Ts) ((s0 # others) ! b)" by blast
    then obtain qs where qs: "(s0 # others) ! b = ODict qs"
      by (rule fits_ODict_cases)
    have fq: "fits (ODict Ts) (ODict qs)"
      using fb qs by simp
    have lenqs: "length qs = length Ts"
      using lenps f0 fq by (auto dest: list_all2_lengthD)
    have "map (map_prod id (map_obslike (\<lambda>t. select0 t b))) vs = qs"
    proof (rule nth_equalityI)
      show "length (map (map_prod id (map_obslike (\<lambda>t. select0 t b))) vs) = length qs"
        using lenvs lenqs by simp
    next
      fix i assume "i < length (map (map_prod id (map_obslike (\<lambda>t. select0 t b))) vs)"
      then have i: "i < length Ts" using lenvs by simp
      have "fst (qs ! i) = fst (Ts ! i)"
        using fits_ODict_nth(3) [OF fq i] .
      moreover have "map_obslike (\<lambda>t. select0 t b) (snd (vs ! i)) = snd (qs ! i)"
        using vi [OF i] b by (simp add: qs nth_child_def)
      ultimately show "map (map_prod id (map_obslike (\<lambda>t. select0 t b))) vs ! i = qs ! i"
        using vi [OF i] i lenvs by (simp add: prod_eq_iff)
    qed
    then show ?thesis
      by (simp add: qs)
  qed
  from res fit sl show ?case by blast
qed

lemma merge_unpacked_batch_fits:
  assumes "rs \<noteq> []" and "\<forall>r \<in> set rs. fits T r"
  shows "\<exists>R. merge_unpacked_batch rs = Inr R \<and>
             fits (map_obslike ((#) (length rs)) T) R \<and>
             (\<forall>b < length rs. map_obslike (\<lambda>t. select0 t b) R = rs ! b)"
proof -
  from assms(1) obtain s0 others where rs: "rs = s0 # others"
    by (cases rs) auto
  have "same_structure s0 s" if "s \<in> set others" for s
    using assms(2) that by (intro fits_same_structure [of T]) (simp_all add: rs)
  then have "\<not> list_ex (\<lambda>s. \<not> same_structure s0 s) others"
    by (simp add: list_ex_iff)
  then have "merge_unpacked_batch rs = traverse torch_stack (zip_leaves s0 others)"
    by (simp add: merge_unpacked_batch_def map_structure_def rs)
  with traverse_zip_fits [of s0 others T] assms(2) show ?thesis
    by (simp add: rs)
qed

subsection \<open>The shape of an unpacked tensor\<close>

lemma append_Nil_fun: "map_obslike ((@) []) T = T"
proof -
  have "(@) [] = (\<lambda>ys :: 'a list. ys)"
    by (simp add: fun_eq_iff)
  then show ?thesis
    by (simp add: obslike.map_ident)
qed

lemma push_batch:
  "map_obslike ((#) n) (map_obslike ((@) batch) T) = map_obslike ((@) (n # batch)) T"
proof -
  have "(#) n \<circ> (@) batch = (@) (n # batch)"
    by (simp add: fun_eq_iff)
  then show ?thesis
    by (simp add: obslike.map_comp)
qed

lemma length_split_from: "length (split_from t start sizes) = length sizes"
  by (induction sizes arbitrary: start) auto

lemma torch_split_wf:
  assumes "wf_array t" and "ndim t \<le> 1" and "torch_split t sizes = Inr chunks"
  shows "length chunks = length sizes" and "\<forall>c \<in> set chunks. wf_array c \<and> ndim c = 1"
proof -
  from assms(3) obtain n rest where sh: "shape t = n # rest"
    by (cases "shape t") (auto simp: torch_split_def)
  with assms(2) have sh1: "shape t = [n]"
    by (simp add: ndim_def)
  from assms(3) sh have chunks: "chunks = split_from t 0 sizes"
    by (auto simp: torch_split_def split: if_splits)
  then show "length chunks = length sizes"
    by (simp add: length_split_from)
  show "\<forall>c \<in> set chunks. wf_array c \<and> ndim c = 1"
    using split_from_wf [OF assms(1) sh1] chunks by blast
qed

lemma unpack_tensor_fits_all:
  fixes t t' t'' :: "'a ndarray"
  shows
  "\<forall>r. wf_array t \<longrightarrow> unpack_tensor t sp = Inr r \<longrightarrow>
        fits (map_obslike ((@) (butlast (shape t))) (shapes_of sp)) r"
  and "\<forall>r. wf_array t' \<longrightarrow> ndim t' \<le> 1 \<longrightarrow> unpack_tensor_single t' sp' = Inr r \<longrightarrow>
        fits (shapes_of sp') r"
  and "\<forall>r. wf_array t'' \<longrightarrow> 1 < ndim t'' \<longrightarrow> unpack_tensor_batched t'' sp'' = Inr r \<longrightarrow>
        fits (map_obslike ((@) (butlast (shape t''))) (shapes_of sp'')) r"
proof (induction t sp and t' sp' and t'' sp''
    rule: unpack_tensor_unpack_tensor_single_unpack_tensor_batched.induct)
  case (1 t sp)
  show ?case
  proof (intro allI impI)
    fix r assume wf: "wf_array t" and res: "unpack_tensor t sp = Inr r"
    show "fits (map_obslike ((@) (butlast (shape t))) (shapes_of sp)) r"
    proof (cases "1 < ndim t")
      case True
      with res have "unpack_tensor_batched t sp = Inr r" by simp
      with "1.IH"(2) [OF refl] True wf show ?thesis by simp
    next
      case False
      with res have "unpack_tensor_single t sp = Inr r" by simp
      with "1.IH"(1) [OF refl] False wf have "fits (shapes_of sp) r" by simp
      moreover from False have "butlast (shape t) = []"
        by (cases "shape t") (auto simp: ndim_def)
      ultimately show ?thesis
        by (simp add: append_Nil_fun)
    qed
  qed
next
  case (2 t shp)
  show ?case
    by (auto simp: map_res_def torch_reshape_def wf_array_def split: if_splits)
next
  case (3 t spaces)
  show ?case
  proof (intro allI impI)
    fix r assume wf: "wf_array t" and rank: "ndim t \<le> 1"
      and res: "unpack_tensor_single t (Dict spaces) = Inr r"
    let ?f = "\<lambda>(unpacked, (name, s)). map_res (Pair name) (unpack_tensor unpacked s)"
    from res obtain sizes where sizes:
      "collect (map (\<lambda>s. packed_size (ASpace s)) (map snd spaces)) = Inr sizes"
      by (auto split: sum.splits)
    with res obtain chunks where chunks: "torch_split t sizes = Inr chunks"
      by (auto split: sum.splits)
    with res sizes obtain su where su: "collect (map ?f (zip chunks spaces)) = Inr su"
      and r: "r = ODict (ordered_dict su)"
      by (auto split: sum.splits)
    have "length sizes = length spaces"
      using collect_Inr_rel [OF sizes] by (auto dest: list_all2_lengthD)
    then have lenc: "length chunks = length spaces"
      using torch_split_wf(1) [OF wf rank chunks] by simp
    have cwf: "\<forall>c \<in> set chunks. wf_array c \<and> ndim c = 1"
      using torch_split_wf(2) [OF wf rank chunks] .
    have rel: "list_all2 (\<lambda>x v. ?f x = Inr v) (zip chunks spaces) su"
      using collect_Inr_rel [OF su] by (simp add: list_all2_map1)
    then have lensu: "length su = length spaces"
      using lenc by (auto dest: list_all2_lengthD)
    have "(case (map (\<lambda>(name, s). (name, shapes_of s)) spaces) ! i of
             (k, T) \<Rightarrow> \<lambda>(k', p). k = k' \<and> fits T p) (su ! i)"
      if i: "i < length spaces" for i
    proof -
      obtain name s where ns: "spaces ! i = (name, s)"
        by (cases "spaces ! i")
      have mem: "(chunks ! i, spaces ! i) \<in> set (zip chunks spaces)"
        using i lenc by (metis in_set_zip fst_conv snd_conv)
      have "?f (zip chunks spaces ! i) = Inr (su ! i)"
        using list_all2_nthD [OF rel] i lenc by simp
      then have "map_res (Pair name) (unpack_tensor (chunks ! i) s) = Inr (su ! i)"
        using i lenc ns by simp
      then obtain ri where ri: "unpack_tensor (chunks ! i) s = Inr ri" and sui: "su ! i = (name, ri)"
        by (auto simp: map_res_def split: sum.splits)
      have c: "wf_array (chunks ! i)" "ndim (chunks ! i) = 1"
        using cwf i lenc by simp_all
      from "3.IH" [OF sizes chunks mem refl ns [symmetric]] c(1) ri
      have "fits (map_obslike ((@) (butlast (shape (chunks ! i)))) (shapes_of s)) ri"
        by blast
      moreover from c(2) have "butlast (shape (chunks ! i)) = []"
        by (cases "shape (chunks ! i)") (auto simp: ndim_def)
      ultimately have "fits (shapes_of s) ri"
        by (simp add: append_Nil_fun)
      then show ?thesis
        using i ns sui by simp
    qed
    then have "list_all2 (\<lambda>(k, T) (k', p). k = k' \<and> fits T p)
                 (map (\<lambda>(name, s). (name, shapes_of s)) spaces) su"
      using lensu by (simp add: list_all2_conv_all_nth)
    then have "list_all2 (\<lambda>(k, T) (k', p). k = k' \<and> fits T p)
                 (ordered_dict (map (\<lambda>(name, s). (name, shapes_of s)) spaces)) (ordered_dict su)"
      by (rule ordered_dict_rel)
    then show "fits (shapes_of (Dict spaces)) r"
      by (simp add: r distinct_ordered_dict)
  qed
next
  case (5 t sp)
  show ?case
  proof (intro allI impI)
    fix r assume wf: "wf_array t" and rank: "1 < ndim t"
      and res: "unpack_tensor_batched t sp = Inr r"
    from rank obtain n rest where sh: "shape t = n # rest" and rest: "rest \<noteq> []"
      by (cases "shape t") (auto simp: ndim_def)
    from res sh obtain rs where
      rs: "collect (map (\<lambda>b. unpack_tensor (select0 t b) sp) [0..<n]) = Inr rs"
      and merge: "merge_unpacked_batch rs = Inr r"
      by (auto split: sum.splits)
    have rel: "list_all2 (\<lambda>b v. unpack_tensor (select0 t b) sp = Inr v) [0..<n] rs"
      using collect_Inr_rel [OF rs] by (simp add: list_all2_map1)
    then have len: "length rs = n"
      by (auto dest: list_all2_lengthD)
    have ne: "rs \<noteq> []"
    proof
      assume "rs = []"
      with merge show False
        by (simp add: merge_unpacked_batch_def map_structure_def)
    qed
    have "fits (map_obslike ((@) (butlast rest)) (shapes_of sp)) r'" if "r' \<in> set rs" for r'
    proof -
      from that obtain b where b: "b < n" "r' = rs ! b"
        using len by (metis in_set_conv_nth)
      have ub: "unpack_tensor (select0 t b) sp = Inr r'"
        using list_all2_nthD [OF rel, of b] b by simp
      have sw: "wf_array (select0 t b)" "shape (select0 t b) = rest"
        using select0_wf [OF wf sh b(1)] by simp_all
      have "b \<in> set [0..<n]" using b(1) by simp
      from "5.IH" [OF sh this] sw(1) ub
      have "fits (map_obslike ((@) (butlast (shape (select0 t b)))) (shapes_of sp)) r'"
        by blast
      then show ?thesis by (simp add: sw(2))
    qed
    then have "\<forall>r' \<in> set rs. fits (map_obslike ((@) (butlast rest)) (shapes_of sp)) r'"
      by blast
    from merge_unpacked_batch_fits [OF ne this] merge len
    have "fits (map_obslike ((#) n) (map_obslike ((@) (butlast rest)) (shapes_of sp))) r"
      by auto
    then show "fits (map_obslike ((@) (butlast (shape t))) (shapes_of sp)) r"
      using sh rest by (simp add: push_batch)
  qed
qed simp_all

lemma fits_leaves:
  "fits T R \<Longrightarrow> t \<in> set_obslike R \<Longrightarrow> shape t \<in> set_obslike T \<and> wf_array t"
proof (induction T arbitrary: R)
  case (Leaf shp)
  then show ?case
    by (cases R) auto
next
  case (ODict Ts)
  from ODict.prems(1) obtain ps where R: "R = ODict ps"
    by (rule fits_ODict_cases)
  with ODict.prems have f: "fits (ODict Ts) (ODict ps)" by simp
  from ODict.prems(2) R obtain kp where kp: "kp \<in> set ps" "t \<in> set_obslike (snd kp)"
    by (cases R) (auto simp: Basic_BNFs.snds.simps)
  then obtain i where i: "i < length ps" "kp = ps ! i"
    by (metis in_set_conv_nth)
  have len: "length ps = length Ts"
    using f by (auto dest: list_all2_lengthD)
  with i have i': "i < length Ts" by simp
  have mem: "Ts ! i \<in> set Ts" using i' by simp
  have snds: "snd (Ts ! i) \<in> Basic_BNFs.snds (Ts ! i)"
    by (cases "Ts ! i") simp
  have "fits (snd (Ts ! i)) (snd kp)"
    using fits_ODict_nth(4) [OF f i'] i(2) by simp
  from ODict.IH [OF mem snds this kp(2)]
  have "shape t \<in> set_obslike (snd (Ts ! i))" and "wf_array t"
    by simp_all
  then show ?case
    using mem snds by auto
qed

text \<open>
  C5, as the code has it. A tensor of at most one dimension goes to
  \<^verbatim>\<open>_unpack_tensor_single\<close>, a tensor of more dimensions to
  \<^verbatim>\<open>_unpack_tensor_batched\<close>. For a well-formed tensor of more than one dimension whose
  first dimension \<open>n\<close> is at least 1: when \<^verbatim>\<open>unpack_tensor\<close> returns on each of the
  \<open>n\<close> slices (it is itself batched where a slice still has more than one dimension), it
  returns on the whole tensor; slice \<open>b\<close> of every leaf of the result is the leaf that
  \<^verbatim>\<open>unpack_tensor\<close> returns for slice \<open>b\<close> of the input, and every leaf of the result
  has a first dimension of size \<open>n\<close>.
\<close>

theorem unpack_tensor_batch_merge:
  "(ndim x \<le> 1 \<longrightarrow> unpack_tensor x space = unpack_tensor_single x space) \<and>
   (1 < ndim x \<longrightarrow> unpack_tensor x space = unpack_tensor_batched x space) \<and>
   (wf_array x \<and> shape x = n # rest \<and> rest \<noteq> [] \<and> 0 < n \<and>
    (\<forall>b < n. \<exists>r. unpack_tensor (select0 x b) space = Inr r) \<longrightarrow>
      (\<exists>R. unpack_tensor x space = Inr R \<and>
           (\<forall>b < n. unpack_tensor (select0 x b) space = Inr (map_obslike (\<lambda>t. select0 t b) R)) \<and>
           (\<forall>t \<in> set_obslike R. \<exists>shp. shape t = n # shp \<and> wf_array t)))"
proof (intro conjI impI)
  show "unpack_tensor x space = unpack_tensor_single x space" if "ndim x \<le> 1"
    using that by simp
  show "unpack_tensor x space = unpack_tensor_batched x space" if "1 < ndim x"
    using that by simp
next
  assume a: "wf_array x \<and> shape x = n # rest \<and> rest \<noteq> [] \<and> 0 < n \<and>
    (\<forall>b < n. \<exists>r. unpack_tensor (select0 x b) space = Inr r)"
  then have wf: "wf_array x" and sh: "shape x = n # rest" and rest: "rest \<noteq> []" and n: "0 < n"
    and slices: "\<forall>b < n. \<exists>r. unpack_tensor (select0 x b) space = Inr r"
    by simp_all
  let ?T = "map_obslike ((@) (butlast rest)) (shapes_of space)"
  have "\<forall>b \<in> set [0..<n]. \<exists>r. unpack_tensor (select0 x b) space = Inr r"
    using slices by simp
  then obtain rs where rs: "collect (map (\<lambda>b. unpack_tensor (select0 x b) space) [0..<n]) = Inr rs"
    and rel: "list_all2 (\<lambda>b r. unpack_tensor (select0 x b) space = Inr r) [0..<n] rs"
    using collect_all_Inr [of "[0..<n]" "\<lambda>b. unpack_tensor (select0 x b) space"] by blast
  have len: "length rs = n"
    using rel by (auto dest: list_all2_lengthD)
  have nth: "unpack_tensor (select0 x b) space = Inr (rs ! b)" if "b < n" for b
    using list_all2_nthD [OF rel, of b] that by simp
  have ne: "rs \<noteq> []"
    using len n by auto
  have "fits ?T r" if "r \<in> set rs" for r
  proof -
    from that obtain b where b: "b < n" "r = rs ! b"
      using len by (metis in_set_conv_nth)
    have "wf_array (select0 x b)" "shape (select0 x b) = rest"
      using select0_wf [OF wf sh b(1)] by simp_all
    with unpack_tensor_fits_all(1) [of "select0 x b" space] nth [OF b(1)] b(2)
    show ?thesis by simp
  qed
  then have "\<forall>r \<in> set rs. fits ?T r"
    by blast
  from merge_unpacked_batch_fits [OF ne this] obtain R where
    R: "merge_unpacked_batch rs = Inr R" "fits (map_obslike ((#) (length rs)) ?T) R"
    "\<forall>b < length rs. map_obslike (\<lambda>t. select0 t b) R = rs ! b"
    by blast
  have rank: "1 < ndim x"
    using sh rest by (cases rest) (simp_all add: ndim_def)
  have "unpack_tensor_batched x space = Inr R"
    using sh rs R(1) by simp
  with rank have res: "unpack_tensor x space = Inr R"
    by simp
  have sl: "\<forall>b < n. unpack_tensor (select0 x b) space = Inr (map_obslike (\<lambda>t. select0 t b) R)"
    using R(3) nth len by simp
  have "\<exists>shp. shape t = n # shp \<and> wf_array t" if "t \<in> set_obslike R" for t
  proof -
    from fits_leaves [OF R(2) that] len
    have "shape t \<in> set_obslike (map_obslike ((#) n) ?T)" and "wf_array t"
      by simp_all
    then show ?thesis
      by (auto simp: obslike.set_map)
  qed
  with res sl show "\<exists>R. unpack_tensor x space = Inr R \<and>
           (\<forall>b < n. unpack_tensor (select0 x b) space = Inr (map_obslike (\<lambda>t. select0 t b) R)) \<and>
           (\<forall>t \<in> set_obslike R. \<exists>shp. shape t = n # shp \<and> wf_array t)"
    by blast
qed

theorem unpack_tensor_batch_merge_witness:
  "unpack_tensor (NDArray [2, 3] [1, 2, 3, 4, 5, 6 :: int])
     (Dict [(''pos'', Box [2]), (''vel'', Box [1])]) =
     Inr (ODict [(''pos'', Leaf (NDArray [2, 2] [1, 2, 4, 5])), (''vel'', Leaf (NDArray [2, 1] [3, 6]))]) \<and>
   (\<exists>R. unpack_tensor (NDArray [2, 3] [1, 2, 3, 4, 5, 6 :: int])
            (Dict [(''pos'', Box [2]), (''vel'', Box [1])]) = Inr R \<and>
        unpack_tensor (select0 (NDArray [2, 3] [1, 2, 3, 4, 5, 6 :: int]) 0)
            (Dict [(''pos'', Box [2]), (''vel'', Box [1])]) = Inr (map_obslike (\<lambda>t. select0 t 0) R) \<and>
        unpack_tensor (select0 (NDArray [2, 3] [1, 2, 3, 4, 5, 6 :: int]) 1)
            (Dict [(''pos'', Box [2]), (''vel'', Box [1])]) = Inr (map_obslike (\<lambda>t. select0 t 1) R))"
  (is "unpack_tensor ?x ?D = Inr ?S \<and> ?slices")
proof
  show "unpack_tensor ?x ?D = Inr ?S"
    by code_simp
next
  have s0: "unpack_tensor (select0 ?x 0) ?D =
      Inr (ODict [(''pos'', Leaf (NDArray [2] [1, 2])), (''vel'', Leaf (NDArray [1] [3]))])"
    by code_simp
  have s1: "unpack_tensor (select0 ?x 1) ?D =
      Inr (ODict [(''pos'', Leaf (NDArray [2] [4, 5])), (''vel'', Leaf (NDArray [1] [6]))])"
    by code_simp
  have "\<exists>r. unpack_tensor (select0 ?x b) ?D = Inr r" if "b < 2" for b
  proof -
    from that consider "b = 0" | "b = 1" by linarith
    then show ?thesis
      using s0 s1 by cases auto
  qed
  then have "wf_array ?x \<and> shape ?x = 2 # [3] \<and> [3 :: nat] \<noteq> [] \<and> (0 :: nat) < 2 \<and>
      (\<forall>b < 2. \<exists>r. unpack_tensor (select0 ?x b) ?D = Inr r)"
    by (simp add: wf_array_def)
  with unpack_tensor_batch_merge [of ?x ?D 2 "[3]"]
  obtain R where "unpack_tensor ?x ?D = Inr R"
    and "\<forall>b < 2. unpack_tensor (select0 ?x b) ?D = Inr (map_obslike (\<lambda>t. select0 t b) R)"
    by blast
  then show ?slices
    by (intro exI [of _ R]) simp
qed

text \<open>
  C5 as stated fails. The slices are unpacked by \<^verbatim>\<open>unpack_tensor\<close>, not by the
  unbatched \<^verbatim>\<open>_unpack_tensor_single\<close>: for an input of shape \<^verbatim>\<open>(2, 1, 1)\<close> and the
  space \<^verbatim>\<open>Box(shape=(1,))\<close>, slice 0 of the result has the shape \<^verbatim>\<open>(1, 1)\<close>, and
  the unbatched unpack of slice 0 of the input has the shape \<^verbatim>\<open>(1,)\<close>. And a batch of
  size 0 gives no result with a first dimension of size 0:
  \<^verbatim>\<open>tree.map_structure\<close> raises \<^verbatim>\<open>ValueError\<close> when it is given no structure.
\<close>

theorem unpack_tensor_slice_not_unbatched:
  "unpack_tensor (NDArray [2, 1, 1] [7, 8 :: int]) (Box [1]) = Inr (Leaf (NDArray [2, 1, 1] [7, 8])) \<and>
   map_obslike (\<lambda>t. select0 t 0) (Leaf (NDArray [2, 1, 1] [7, 8 :: int])) = Leaf (NDArray [1, 1] [7]) \<and>
   unpack_tensor_single (select0 (NDArray [2, 1, 1] [7, 8 :: int]) 0) (Box [1]) =
     Inr (Leaf (NDArray [1] [7])) \<and>
   Leaf (NDArray [1, 1] [7 :: int]) \<noteq> Leaf (NDArray [1] [7]) \<and>
   unpack_tensor (NDArray [0, 3] ([] :: int list)) (Box [3]) = Inl ValueError"
  by code_simp

end
